theory Spec2Isabelle
  imports Main "HOL-Library.Sublist"
begin

section \<open>Heckle: a static-site generator (src/heckle.js)\<close>

text \<open>
  The theory embeds the functions of \<^verbatim>\<open>src/heckle.js\<close> and states the properties of the
  specification over them. JavaScript strings are modelled as \<^typ>\<open>string\<close> (lists of
  code units), JavaScript values that flow through the front matter as the tree type
  \<open>jsval\<close>, and thrown exceptions as the left summand of a sum type. The external
  collaborators (the YAML parser, the Markdown renderer, the template engine, the HTML
  escaper) are parameters of the functions that call them.
\<close>

subsection \<open>JavaScript values\<close>

text \<open>
  \<open>JObj\<close> lists the own enumerable properties of a plain object in enumeration order.
  \<open>JDate\<close> carries the time value of a \<^verbatim>\<open>Date\<close>, \<open>JFun\<close> an opaque function.
  Numbers are integers or \<open>JNaN\<close>; no property below depends on a fractional number.
\<close>

datatype jsval =
    JUndefined
  | JNull
  | JBool bool
  | JNum int
  | JNaN
  | JStr string
  | JDate int
  | JFun nat
  | JArr "jsval list"
  | JObj "(string \<times> jsval) list"

text \<open>
  The exceptions the program can raise. \<open>OutOfModel\<close> marks the inputs on which the program
  depends on a JavaScript feature that this embedding does not represent.
\<close>

datatype error = YAMLException | TypeError | ReferenceError | SyntaxError | ENOENT | OutOfModel

text \<open>JavaScript's \<^verbatim>\<open>ToBoolean\<close>, as used by \<^verbatim>\<open>||\<close>, \<^verbatim>\<open>!\<close> and \<^verbatim>\<open>if\<close>.\<close>

fun truthy :: "jsval \<Rightarrow> bool" where
  "truthy JUndefined = False"
| "truthy JNull = False"
| "truthy (JBool b) = b"
| "truthy (JNum n) = (n \<noteq> 0)"
| "truthy JNaN = False"
| "truthy (JStr s) = (s \<noteq> [])"
| "truthy _ = True"

subsection \<open>Front-matter splitter: \<^verbatim>\<open>readContents\<close> (lines 21-31)\<close>

definition NL :: char where
  "NL = CHR 0x0A"

text \<open>The delimiter line: three dashes and a newline.\<close>

definition fence :: string where
  "fence = ''---'' @ [NL]"

text \<open>
  \<^verbatim>\<open>contents.search(/\\n---\\n/)\<close>: the index of the first occurrence of a literal
  pattern, \<open>None\<close> for JavaScript's \<open>-1\<close>.
\<close>

fun indexOf :: "string \<Rightarrow> string \<Rightarrow> nat option" where
  "indexOf pat [] = (if pat = [] then Some 0 else None)"
| "indexOf pat (c # cs) =
     (if prefix pat (c # cs) then Some 0 else map_option Suc (indexOf pat cs))"

text \<open>\<^verbatim>\<open>s.slice(a, b)\<close> for \<open>0 \<le> a\<close>, \<open>0 \<le> b\<close>; \<^verbatim>\<open>s.slice(a)\<close> is \<^term>\<open>drop a s\<close>.\<close>

definition slice :: "nat \<Rightarrow> nat \<Rightarrow> string \<Rightarrow> string" where
  "slice a b s = take (b - a) (drop a s)"

text \<open>
  \<^verbatim>\<open>yaml.load\<close> is the parameter \<open>yaml_load\<close>; it returns a value or throws.
  \<^verbatim>\<open>yaml.load(...) || {}\<close> replaces every falsy result by an empty object.
\<close>

record contents =
  frontMatter :: jsval
  mainText :: string

definition readContents :: "(string \<Rightarrow> error + jsval) \<Rightarrow> string \<Rightarrow> error + contents" where
  "readContents yaml_load text =
     (if prefix fence text then
        (case indexOf (NL # fence) text of
           Some e \<Rightarrow>
             (case yaml_load (slice 4 (e + 1) text) of
                Inl err \<Rightarrow> Inl err
              | Inr v \<Rightarrow>
                  Inr \<lparr>frontMatter = (if truthy v then v else JObj []),
                       mainText = drop (e + 5) text\<rparr>)
         | None \<Rightarrow> Inr \<lparr>frontMatter = JNull, mainText = text\<rparr>)
      else Inr \<lparr>frontMatter = JNull, mainText = text\<rparr>)"


text \<open>
  The specification's reading of a header block, independent of the code: the text is the
  delimiter line, then a block of \<open>n\<close> characters made of complete lines, then the
  delimiter line again; \<open>headerSplit\<close> takes the first such \<open>n\<close> and returns the block
  and the body after the closing delimiter.
\<close>

definition completeLines :: "string \<Rightarrow> bool" where
  "completeLines b = (b = [] \<or> last b = NL)"

definition headerAt :: "string \<Rightarrow> nat \<Rightarrow> bool" where
  "headerAt text n =
     (prefix fence text \<and> completeLines (take n (drop 4 text)) \<and> prefix fence (drop (4 + n) text))"

definition headerSplit :: "string \<Rightarrow> (string \<times> string) option" where
  "headerSplit text =
     map_option (\<lambda>n. (take n (drop 4 text), drop (8 + n) text))
       (find (headerAt text) [0..<Suc (length text)])"


subsection \<open>Template substitution: \<^verbatim>\<open>fillTemplate\<close> (lines 92-95)\<close>

text \<open>
  \<^verbatim>\<open>String.prototype.replace\<close> with a string pattern replaces the first occurrence only,
  and expands the patterns \<^verbatim>\<open>$$\<close>, \<^verbatim>\<open>$&\<close>, \<^verbatim>\<open>$`\<close> and \<^verbatim>\<open>$'\<close> of the replacement
  text (\<open>getSubstitution\<close>; with a string pattern there are no captures, so \<^verbatim>\<open>$1\<close> and the
  like stay as they are).
\<close>

fun getSubstitution :: "string \<Rightarrow> string \<Rightarrow> string \<Rightarrow> string \<Rightarrow> string" where
  "getSubstitution m b a (c # d # r) =
     (if c = CHR ''$'' then
        (if d = CHR ''$'' then CHR ''$'' # getSubstitution m b a r
         else if d = CHR ''&'' then m @ getSubstitution m b a r
         else if d = CHR 0x60 then b @ getSubstitution m b a r
         else if d = CHR 0x27 then a @ getSubstitution m b a r
         else c # getSubstitution m b a (d # r))
      else c # getSubstitution m b a (d # r))"
| "getSubstitution m b a r = r"

definition replace :: "string \<Rightarrow> string \<Rightarrow> string \<Rightarrow> string" where
  "replace s pat rep =
     (case indexOf pat s of
        None \<Rightarrow> s
      | Some i \<Rightarrow>
          take i s @ getSubstitution pat (take i s) (drop (i + length pat) s) rep
            @ drop (i + length pat) s)"

text \<open>
  \<^verbatim>\<open>for (var prop in vars) tpl = tpl.replace("${" + prop + "}", vars[prop])\<close>. The
  record is given by its enumerable properties in enumeration order, each value by its
  string conversion (\<^verbatim>\<open>replace\<close> applies \<^verbatim>\<open>ToString\<close> to a replacement that is not a
  function).
\<close>

definition token :: "string \<Rightarrow> string" where
  "token prop = ''${'' @ prop @ ''}''"

definition fillTemplate :: "string \<Rightarrow> (string \<times> string) list \<Rightarrow> string" where
  "fillTemplate tpl vars = fold (\<lambda>(prop, v) t. replace t (token prop) v) vars tpl"

text \<open>
  The specification's view of a template: literal text and \<^verbatim>\<open>${name}\<close> tokens.
  \<open>substAll\<close> is the substitution the specification describes (every token of a field is
  replaced); \<open>substFirst\<close> replaces the first token of one field only.
\<close>

datatype seg = Lit string | Tok string

fun renderSeg :: "seg \<Rightarrow> string" where
  "renderSeg (Lit s) = s"
| "renderSeg (Tok n) = token n"

definition renderSegs :: "seg list \<Rightarrow> string" where
  "renderSegs segs = concat (map renderSeg segs)"

fun substAll :: "(string \<times> string) list \<Rightarrow> seg \<Rightarrow> seg" where
  "substAll vars (Lit s) = Lit s"
| "substAll vars (Tok n) = (case map_of vars n of Some v \<Rightarrow> Lit v | None \<Rightarrow> Tok n)"

fun substFirst :: "string \<times> string \<Rightarrow> seg list \<Rightarrow> seg list" where
  "substFirst (k, v) [] = []"
| "substFirst (k, v) (Lit s # segs) = Lit s # substFirst (k, v) segs"
| "substFirst (k, v) (Tok n # segs) =
     (if n = k then Lit v # segs else Tok n # substFirst (k, v) segs)"


text \<open>
  Well-formed templates and records: literal text and field values without a dollar sign,
  token and field names without a dollar sign or a closing brace.
\<close>

definition plain :: "string \<Rightarrow> bool" where
  "plain s = (CHR ''$'' \<notin> set s)"

definition ident :: "string \<Rightarrow> bool" where
  "ident n = (CHR ''$'' \<notin> set n \<and> CHR ''}'' \<notin> set n)"

fun wfSeg :: "seg \<Rightarrow> bool" where
  "wfSeg (Lit s) = plain s"
| "wfSeg (Tok n) = ident n"

fun wfVar :: "string \<times> string \<Rightarrow> bool" where
  "wfVar (k, v) = (ident k \<and> plain v)"

subsection \<open>Property access on front-matter values\<close>

text \<open>
  Reading a property the object does not have gives \<^verbatim>\<open>undefined\<close>. The file is not in
  strict mode, so an assignment to a property of a primitive is silently dropped, and one
  to a property of \<^verbatim>\<open>undefined\<close> or \<^verbatim>\<open>null\<close> throws a \<open>TypeError\<close>. An array, a
  \<^verbatim>\<open>Date\<close> or a function that is given further properties is not represented here
  (\<open>OutOfModel\<close>), nor is a call of a function stored in the data.
\<close>

fun getProp :: "jsval \<Rightarrow> string \<Rightarrow> jsval" where
  "getProp (JObj fs) k = (case map_of fs k of Some v \<Rightarrow> v | None \<Rightarrow> JUndefined)"
| "getProp _ k = JUndefined"

fun updateProp :: "string \<Rightarrow> 'a \<Rightarrow> (string \<times> 'a) list \<Rightarrow> (string \<times> 'a) list" where
  "updateProp k v [] = [(k, v)]"
| "updateProp k v ((k', v') # fs) =
     (if k' = k then (k, v) # fs else (k', v') # updateProp k v fs)"

fun setProp :: "jsval \<Rightarrow> string \<Rightarrow> jsval \<Rightarrow> error + jsval" where
  "setProp (JObj fs) k v = Inr (JObj (updateProp k v fs))"
| "setProp JUndefined k v = Inl TypeError"
| "setProp JNull k v = Inl TypeError"
| "setProp (JArr xs) k v = Inl OutOfModel"
| "setProp (JDate t) k v = Inl OutOfModel"
| "setProp (JFun f) k v = Inl OutOfModel"
| "setProp p k v = Inr p"

subsection \<open>Tag indexer: \<^verbatim>\<open>gatherTags\<close> (lines 69-78)\<close>

text \<open>
  \<^verbatim>\<open>post.tags.forEach(...)\<close>: the elements of an array; any other truthy value has no
  callable \<^verbatim>\<open>forEach\<close>.
\<close>

fun forEachItems :: "jsval \<Rightarrow> error + jsval list" where
  "forEachItems (JArr xs) = Inr xs"
| "forEachItems (JObj fs) =
     (case getProp (JObj fs) ''forEach'' of JFun f \<Rightarrow> Inl OutOfModel | _ \<Rightarrow> Inl TypeError)"
| "forEachItems _ = Inl TypeError"

text \<open>A tag used as a property key is converted to a string (\<open>toStr\<close> is \<^verbatim>\<open>ToString\<close>).\<close>

definition propertyKey :: "(jsval \<Rightarrow> string) \<Rightarrow> jsval \<Rightarrow> string" where
  "propertyKey toStr v = (case v of JStr s \<Rightarrow> s | _ \<Rightarrow> toStr v)"

text \<open>
  The index \<^verbatim>\<open>tags\<close> is an object used as a dictionary. Line 73 calls
  \<^verbatim>\<open>tags.hasOwnProperty(tag)\<close> on it: once a bucket named \<^verbatim>\<open>hasOwnProperty\<close> exists, that
  call hits the bucket (an array) and throws. Assigning to \<^verbatim>\<open>tags["__proto__"]\<close> sets the
  prototype and creates no own property.
\<close>

type_synonym tagIndex = "string \<rightharpoonup> jsval list"

definition addTag :: "jsval \<Rightarrow> tagIndex \<Rightarrow> string \<Rightarrow> error + tagIndex" where
  "addTag post tags tag =
     (if tags ''hasOwnProperty'' \<noteq> None then Inl TypeError
      else if tag = ''__proto__'' then Inr tags
      else (case tags tag of
              Some bucket \<Rightarrow> Inr (tags(tag \<mapsto> bucket @ [post]))
            | None \<Rightarrow> Inr (tags(tag \<mapsto> [post]))))"

fun addTags :: "jsval \<Rightarrow> tagIndex \<Rightarrow> string list \<Rightarrow> error + tagIndex" where
  "addTags post tags [] = Inr tags"
| "addTags post tags (t # ts) =
     (case addTag post tags t of Inl e \<Rightarrow> Inl e | Inr tags' \<Rightarrow> addTags post tags' ts)"

text \<open>The body of the outer \<^verbatim>\<open>forEach\<close>; the \<^verbatim>\<open>else\<close> branch mutates the post.\<close>

definition gatherPost ::
  "(jsval \<Rightarrow> string) \<Rightarrow> jsval \<Rightarrow> tagIndex \<Rightarrow> error + (tagIndex \<times> jsval)" where
  "gatherPost toStr post tags =
     (if truthy (getProp post ''tags'') then
        (case forEachItems (getProp post ''tags'') of
           Inl e \<Rightarrow> Inl e
         | Inr items \<Rightarrow>
             (case addTags post tags (map (propertyKey toStr) items) of
                Inl e \<Rightarrow> Inl e
              | Inr tags' \<Rightarrow> Inr (tags', post)))
      else (case setProp post ''tags'' (JArr []) of
              Inl e \<Rightarrow> Inl e
            | Inr post' \<Rightarrow> Inr (tags, post')))"

fun gatherLoop ::
  "(jsval \<Rightarrow> string) \<Rightarrow> jsval list \<Rightarrow> tagIndex \<Rightarrow> error + (tagIndex \<times> jsval list)" where
  "gatherLoop toStr [] tags = Inr (tags, [])"
| "gatherLoop toStr (post # posts) tags =
     (case gatherPost toStr post tags of
        Inl e \<Rightarrow> Inl e
      | Inr (tags', post') \<Rightarrow>
          (case gatherLoop toStr posts tags' of
             Inl e \<Rightarrow> Inl e
           | Inr (tags'', posts') \<Rightarrow> Inr (tags'', post' # posts')))"

definition gatherTags ::
  "(jsval \<Rightarrow> string) \<Rightarrow> jsval list \<Rightarrow> error + (tagIndex \<times> jsval list)" where
  "gatherTags toStr posts = gatherLoop toStr posts Map.empty"


text \<open>
  The specification's notions: the tags a post declares, the posts of a collection that
  carry a tag (\<open>postsTagged\<close>), and the bucket in which a post stands once for every
  occurrence of the tag in its tags (\<open>bucket\<close>).
\<close>

definition tagKeys :: "(jsval \<Rightarrow> string) \<Rightarrow> jsval \<Rightarrow> string list" where
  "tagKeys toStr post =
     (case getProp post ''tags'' of JArr xs \<Rightarrow> map (propertyKey toStr) xs | _ \<Rightarrow> [])"

definition postsTagged :: "(jsval \<Rightarrow> string) \<Rightarrow> string \<Rightarrow> jsval list \<Rightarrow> jsval list" where
  "postsTagged toStr T posts = filter (\<lambda>p. T \<in> set (tagKeys toStr p)) posts"

definition bucket :: "(jsval \<Rightarrow> string) \<Rightarrow> string \<Rightarrow> jsval list \<Rightarrow> jsval list" where
  "bucket toStr T posts =
     concat (map (\<lambda>p. replicate (count_list (tagKeys toStr p) T) p) posts)"

definition indexOfBuckets :: "(string \<Rightarrow> jsval list) \<Rightarrow> tagIndex" where
  "indexOfBuckets B = (\<lambda>T. if B T = [] then None else Some (B T))"

text \<open>
  Posts as the collector leaves them: a plain object whose \<^verbatim>\<open>tags\<close> is falsy or an array,
  with no tag named \<^verbatim>\<open>hasOwnProperty\<close> or \<^verbatim>\<open>__proto__\<close>. \<open>withTags\<close> is the post
  after the indexer has run.
\<close>

fun isObject :: "jsval \<Rightarrow> bool" where
  "isObject (JObj fs) = True"
| "isObject _ = False"

definition tagsOk :: "(jsval \<Rightarrow> string) \<Rightarrow> jsval \<Rightarrow> bool" where
  "tagsOk toStr post =
     (isObject post \<and>
      (case getProp post ''tags'' of
         JArr xs \<Rightarrow> ''hasOwnProperty'' \<notin> set (map (propertyKey toStr) xs) \<and>
                    ''__proto__'' \<notin> set (map (propertyKey toStr) xs)
       | v \<Rightarrow> \<not> truthy v))"

definition withTags :: "jsval \<Rightarrow> jsval" where
  "withTags post =
     (if truthy (getProp post ''tags'') then post
      else (case post of JObj fs \<Rightarrow> JObj (updateProp ''tags'' (JArr []) fs) | _ \<Rightarrow> post))"

definition tagBucket :: "(jsval \<Rightarrow> string) \<Rightarrow> jsval list \<Rightarrow> string \<Rightarrow> jsval list option" where
  "tagBucket toStr posts T =
     (case gatherTags toStr posts of Inr (tags, posts') \<Rightarrow> tags T | Inl e \<Rightarrow> None)"

subsection \<open>Post collector: \<^verbatim>\<open>readPosts\<close> (lines 39-67)\<close>

text \<open>Sequencing of steps that may throw: the first exception ends the computation.\<close>

definition bindE :: "error + 'a \<Rightarrow> ('a \<Rightarrow> error + 'b) \<Rightarrow> error + 'b" where
  "bindE m f = (case m of Inl e \<Rightarrow> Inl e | Inr x \<Rightarrow> f x)"

text \<open>
  The external collaborators: \<^verbatim>\<open>yaml.load\<close>, the Markdown renderer,
  \<^verbatim>\<open>Mold.prototype.escapeHTML\<close>, JavaScript's \<^verbatim>\<open>ToString\<close> and the host's conversion
  of a local time value to UTC.
\<close>

record host =
  yamlLoad :: "string \<Rightarrow> error + jsval"
  renderMarkdown :: "string \<Rightarrow> string"
  escapeHTML :: "jsval \<Rightarrow> string"
  valueToString :: "jsval \<Rightarrow> string"
  localToUTC :: "int \<Rightarrow> int"

text \<open>The configuration after \<^verbatim>\<open>readConfig\<close> (lines 80-90) has filled in the defaults.\<close>

record config =
  postLink :: string
  postFileName :: string
  exclude :: "string list"

text \<open>
  The file-name pattern of line 44,
  \<^verbatim>\<open>/^(\\d{4})-(\\d\\d?)-(\\d\\d?)-(.+)\\.(md|markdown|link|html)$/\<close>. The greedy \<^verbatim>\<open>(.+)\<close>
  backtracks to the last dot, since no extension contains a dot; it matches no line
  terminator and at least one character.
\<close>

definition isDigit :: "char \<Rightarrow> bool" where
  "isDigit c = (c \<in> set ''0123456789'')"

definition lineTerminator :: "char \<Rightarrow> bool" where
  "lineTerminator c = (c = CHR 0x0A \<or> c = CHR 0x0D)"

fun digits12 :: "string \<Rightarrow> (string \<times> string) option" where
  "digits12 (a # b # c # r) =
     (if isDigit a \<and> isDigit b \<and> c = CHR ''-'' then Some ([a, b], r)
      else if isDigit a \<and> b = CHR ''-'' then Some ([a], c # r)
      else None)"
| "digits12 [a, b] = (if isDigit a \<and> b = CHR ''-'' then Some ([a], []) else None)"
| "digits12 _ = None"

definition splitLastDot :: "string \<Rightarrow> (string \<times> string) option" where
  "splitLastDot s =
     (case dropWhile (\<lambda>c. c \<noteq> CHR ''.'') (rev s) of
        [] \<Rightarrow> None
      | dot # stem \<Rightarrow> Some (rev stem, rev (takeWhile (\<lambda>c. c \<noteq> CHR ''.'') (rev s))))"

record postName =
  yearGroup :: string
  monthGroup :: string
  dayGroup :: string
  slugGroup :: string
  extGroup :: string

definition postExtensions :: "string list" where
  "postExtensions = [''md'', ''markdown'', ''link'', ''html'']"

fun matchPost :: "string \<Rightarrow> postName option" where
  "matchPost (y1 # y2 # y3 # y4 # dash # r) =
     (if isDigit y1 \<and> isDigit y2 \<and> isDigit y3 \<and> isDigit y4 \<and> dash = CHR ''-'' then
        (case digits12 r of
           None \<Rightarrow> None
         | Some (m, r2) \<Rightarrow>
             (case digits12 r2 of
                None \<Rightarrow> None
              | Some (d, r3) \<Rightarrow>
                  (case splitLastDot r3 of
                     None \<Rightarrow> None
                   | Some (slug, ext) \<Rightarrow>
                       if slug \<noteq> [] \<and> \<not> list_ex lineTerminator slug \<and> ext \<in> set postExtensions
                       then Some \<lparr>yearGroup = [y1, y2, y3, y4], monthGroup = m, dayGroup = d,
                                  slugGroup = slug, extGroup = ext\<rparr>
                       else None)))
      else None)"
| "matchPost _ = None"

text \<open>
  \<^verbatim>\<open>new Date(d[1], d[2] - 1, d[3])\<close>: the groups are converted to numbers, a year from 0
  to 99 means 1900 to 1999, and ECMAScript's \<open>MakeDay\<close> carries a month or day out of range
  over. The result is local midnight, held as its UTC time value in milliseconds.
\<close>

definition digitValue :: "char \<Rightarrow> int" where
  "digitValue c = int (of_char c) - 48"

definition toNumber :: "string \<Rightarrow> int" where
  "toNumber s = foldl (\<lambda>n c. 10 * n + digitValue c) 0 s"

definition dayFromYear :: "int \<Rightarrow> int" where
  "dayFromYear y = 365 * (y - 1970) + (y - 1969) div 4 - (y - 1901) div 100 + (y - 1601) div 400"

definition leapYear :: "int \<Rightarrow> bool" where
  "leapYear y = (y mod 4 = 0 \<and> (y mod 100 \<noteq> 0 \<or> y mod 400 = 0))"

definition monthStart :: "bool \<Rightarrow> nat \<Rightarrow> int" where
  "monthStart leap m =
     [0, 31, 59, 90, 120, 151, 181, 212, 243, 273, 304, 334] ! m + (if leap \<and> 2 \<le> m then 1 else 0)"

definition makeDay :: "int \<Rightarrow> int \<Rightarrow> int \<Rightarrow> int" where
  "makeDay y m d =
     (let ym = y + m div 12; mn = nat (m mod 12)
      in dayFromYear ym + monthStart (leapYear ym) mn + d - 1)"

definition newDate :: "host \<Rightarrow> int \<Rightarrow> int \<Rightarrow> int \<Rightarrow> jsval" where
  "newDate h y m d =
     JDate (localToUTC h (makeDay (if 0 \<le> y \<and> y \<le> 99 then 1900 + y else y) m d * 86400000))"

text \<open>
  Lines 50-51. \<^verbatim>\<open>post.tags.split(/\\s+/)\<close> cuts the string at every run of white space; a
  run at either end leaves an empty string there.
\<close>

definition isSpace :: "char \<Rightarrow> bool" where
  "isSpace c = (c \<in> set [CHR 0x09, CHR 0x0A, CHR 0x0B, CHR 0x0C, CHR 0x0D, CHR 0x20, CHR 0xA0])"

function splitWs :: "string \<Rightarrow> string \<Rightarrow> string list" where
  "splitWs cur [] = [rev cur]"
| "splitWs cur (c # cs) =
     (if isSpace c then rev cur # splitWs [] (dropWhile isSpace cs)
      else splitWs (c # cur) cs)"
  by pat_completeness auto
termination
  by (relation "measure (\<lambda>(cur, s). length s)")
     (auto simp: length_dropWhile_le less_Suc_eq_le)

fun splitTags :: "jsval \<Rightarrow> error + jsval option" where
  "splitTags JUndefined = Inl TypeError"
| "splitTags JNull = Inl TypeError"
| "splitTags (JStr s) = Inr (Some (JArr (map JStr (splitWs [] s))))"
| "splitTags (JObj fs) =
     (if \<not> truthy (getProp (JObj fs) ''forEach'') \<and> truthy (getProp (JObj fs) ''split'') then
        (case getProp (JObj fs) ''split'' of JFun f \<Rightarrow> Inl OutOfModel | _ \<Rightarrow> Inl TypeError)
      else Inr None)"
| "splitTags _ = Inr None"

text \<open>\<^verbatim>\<open>getURL\<close> (lines 97-99) fills the \<^verbatim>\<open>postLink\<close> template from the post's fields.\<close>

fun enumProps :: "jsval \<Rightarrow> (string \<times> jsval) list" where
  "enumProps (JObj fs) = fs"
| "enumProps _ = []"

definition templateVars :: "host \<Rightarrow> jsval \<Rightarrow> (string \<times> string) list" where
  "templateVars h post = map (\<lambda>(k, v). (k, valueToString h v)) (enumProps post)"

definition getURL :: "host \<Rightarrow> config \<Rightarrow> jsval \<Rightarrow> string" where
  "getURL h cfg post = fillTemplate (postLink cfg) (templateVars h post)"

definition linkContent :: "string \<Rightarrow> string" where
  "linkContent escd =
     ''<p>Read this post at <a href='' @ [CHR 0x22] @ escd @ [CHR 0x22] @ ''>'' @ escd @ ''</a>.</p>''"

text \<open>
  The body of the loop over the directory entries: lines 46-49 (\<open>basePost\<close>), lines 50-51
  (\<open>normaliseTags\<close>), lines 52-62 (\<open>finishPost\<close>) and line 63.
\<close>

definition basePost :: "host \<Rightarrow> postName \<Rightarrow> contents \<Rightarrow> error + jsval" where
  "basePost h d contents =
     bindE (setProp (if truthy (frontMatter contents) then frontMatter contents else JObj [])
              ''date''
              (newDate h (toNumber (yearGroup d)) (toNumber (monthGroup d) - 1)
                 (toNumber (dayGroup d)))) (\<lambda>p1.
     setProp p1 ''name'' (JStr (slugGroup d)))"

definition normaliseTags :: "jsval \<Rightarrow> error + jsval" where
  "normaliseTags p =
     bindE (if \<not> truthy (getProp p ''tags'') then setProp p ''tags'' (JArr []) else Inr p) (\<lambda>p1.
     bindE (splitTags (getProp p1 ''tags'')) (\<lambda>split.
     (case split of None \<Rightarrow> Inr p1 | Some ts \<Rightarrow> setProp p1 ''tags'' ts)))"

definition finishPost :: "host \<Rightarrow> config \<Rightarrow> postName \<Rightarrow> contents \<Rightarrow> jsval \<Rightarrow> error + jsval" where
  "finishPost h cfg d contents p =
     (if extGroup d = ''link'' then
        bindE (setProp p ''content'' (JStr (linkContent (escapeHTML h (getProp p ''url''))))) (\<lambda>p1.
        setProp p1 ''isLink'' (JBool True))
      else
        bindE (setProp p ''content''
                 (JStr (if extGroup d = ''md'' \<or> extGroup d = ''markdown''
                        then renderMarkdown h (mainText contents) else mainText contents))) (\<lambda>p1.
        setProp p1 ''url'' (JStr (getURL h cfg p1))))"

definition readPost :: "host \<Rightarrow> config \<Rightarrow> string \<times> string \<Rightarrow> error + jsval option" where
  "readPost h cfg entry =
     (case matchPost (fst entry) of
        None \<Rightarrow> Inr None
      | Some d \<Rightarrow>
          bindE (readContents (yamlLoad h) (snd entry)) (\<lambda>contents.
          bindE (basePost h d contents) (\<lambda>p.
          bindE (normaliseTags p) (\<lambda>p.
          bindE (finishPost h cfg d contents p) (\<lambda>p.
          Inr (Some p))))))"

fun collectPosts :: "host \<Rightarrow> config \<Rightarrow> (string \<times> string) list \<Rightarrow> error + jsval list" where
  "collectPosts h cfg [] = Inr []"
| "collectPosts h cfg (entry # entries) =
     bindE (readPost h cfg entry) (\<lambda>r.
     bindE (collectPosts h cfg entries) (\<lambda>posts.
     Inr (case r of None \<Rightarrow> posts | Some post \<Rightarrow> post # posts)))"




text \<open>A concrete environment, used to instantiate the theorems below.\<close>

definition exampleHost :: host where
  "exampleHost =
     \<lparr>yamlLoad = (\<lambda>s. Inr (JObj [(''date'', JStr ''1999-01-01''), (''url'', JStr ''http://x.com'')])),
      renderMarkdown = (\<lambda>s. ''<p>'' @ s @ ''</p>''),
      escapeHTML = (\<lambda>v. case v of JStr s \<Rightarrow> s | _ \<Rightarrow> ''undefined''),
      valueToString = (\<lambda>v. case v of JStr s \<Rightarrow> s | _ \<Rightarrow> ''[object]''),
      localToUTC = (\<lambda>t. t)\<rparr>"

definition exampleConfig :: config where
  "exampleConfig = \<lparr>postLink = ''${name}.html'', postFileName = ''${url}'', exclude = []\<rparr>"


subsection \<open>Context merging: \<^verbatim>\<open>partialTemplate\<close> (lines 118-126)\<close>

text \<open>
  \<^verbatim>\<open>JSON.parse(JSON.stringify(ctx))\<close> on a value: \<open>None\<close> stands for the \<^verbatim>\<open>undefined\<close> that
  \<^verbatim>\<open>JSON.stringify\<close> returns for \<^verbatim>\<open>undefined\<close> and for a function. A function-valued or
  undefined property is left out of an object, and is \<^verbatim>\<open>null\<close> in an array; \<^verbatim>\<open>NaN\<close> is
  \<^verbatim>\<open>null\<close>; a \<^verbatim>\<open>Date\<close> is the string its \<^verbatim>\<open>toJSON\<close> returns (\<open>fmt\<close> is
  \<^verbatim>\<open>Date.prototype.toISOString\<close>). An object with a callable \<^verbatim>\<open>toJSON\<close> of its own is
  outside the model.
\<close>

fun jsonCopy :: "(int \<Rightarrow> string) \<Rightarrow> jsval \<Rightarrow> error + jsval option"
  and jsonElems :: "(int \<Rightarrow> string) \<Rightarrow> jsval list \<Rightarrow> error + jsval list"
  and jsonFields :: "(int \<Rightarrow> string) \<Rightarrow> (string \<times> jsval) list \<Rightarrow> error + (string \<times> jsval) list"
where
  "jsonCopy fmt JUndefined = Inr None"
| "jsonCopy fmt (JFun f) = Inr None"
| "jsonCopy fmt JNull = Inr (Some JNull)"
| "jsonCopy fmt (JBool b) = Inr (Some (JBool b))"
| "jsonCopy fmt (JNum n) = Inr (Some (JNum n))"
| "jsonCopy fmt JNaN = Inr (Some JNull)"
| "jsonCopy fmt (JStr s) = Inr (Some (JStr s))"
| "jsonCopy fmt (JDate t) = Inr (Some (JStr (fmt t)))"
| "jsonCopy fmt (JArr xs) =
     (case jsonElems fmt xs of Inl e \<Rightarrow> Inl e | Inr ys \<Rightarrow> Inr (Some (JArr ys)))"
| "jsonCopy fmt (JObj fs) =
     (case map_of fs ''toJSON'' of
        Some (JFun f) \<Rightarrow> Inl OutOfModel
      | _ \<Rightarrow> (case jsonFields fmt fs of Inl e \<Rightarrow> Inl e | Inr gs \<Rightarrow> Inr (Some (JObj gs))))"
| "jsonElems fmt [] = Inr []"
| "jsonElems fmt (x # xs) =
     (case jsonCopy fmt x of
        Inl e \<Rightarrow> Inl e
      | Inr r \<Rightarrow>
          (case jsonElems fmt xs of
             Inl e \<Rightarrow> Inl e
           | Inr ys \<Rightarrow> Inr ((case r of None \<Rightarrow> JNull | Some y \<Rightarrow> y) # ys)))"
| "jsonFields fmt [] = Inr []"
| "jsonFields fmt ((k, v) # fs) =
     (case jsonCopy fmt v of
        Inl e \<Rightarrow> Inl e
      | Inr r \<Rightarrow>
          (case jsonFields fmt fs of
             Inl e \<Rightarrow> Inl e
           | Inr gs \<Rightarrow> Inr (case r of None \<Rightarrow> gs | Some y \<Rightarrow> (k, y) # gs)))"

text \<open>
  \<^verbatim>\<open>Object.keys(newCtx).forEach(function (key) { finalCtx[key] = newCtx[key]; })\<close>.
  Assigning to \<^verbatim>\<open>__proto__\<close> sets the prototype, which is outside the model.
\<close>

fun objectKeys :: "jsval \<Rightarrow> error + string list" where
  "objectKeys JUndefined = Inl TypeError"
| "objectKeys JNull = Inl TypeError"
| "objectKeys (JObj fs) = Inr (map fst fs)"
| "objectKeys (JArr xs) = (if xs = [] then Inr [] else Inl OutOfModel)"
| "objectKeys (JStr s) = (if s = [] then Inr [] else Inl OutOfModel)"
| "objectKeys _ = Inr []"

fun overlay :: "jsval \<Rightarrow> jsval \<Rightarrow> string list \<Rightarrow> error + jsval" where
  "overlay finalCtx newCtx [] = Inr finalCtx"
| "overlay finalCtx newCtx (key # keys) =
     (if key = ''__proto__'' then Inl OutOfModel
      else bindE (setProp finalCtx key (getProp newCtx key)) (\<lambda>c. overlay c newCtx keys))"

text \<open>
  \<open>templateInput\<close> is the value of \<^verbatim>\<open>finalCtx\<close> at line 124, and \<open>partialTemplate\<close> the
  function that line 119 returns, applied to \<open>newCtx\<close>. \<^verbatim>\<open>JSON.parse(undefined)\<close> throws a
  \<open>SyntaxError\<close>.
\<close>

definition templateInput :: "(int \<Rightarrow> string) \<Rightarrow> jsval \<Rightarrow> jsval \<Rightarrow> error + jsval" where
  "templateInput fmt ctx newCtx =
     bindE (jsonCopy fmt ctx) (\<lambda>copy.
     (case copy of
        None \<Rightarrow> Inl SyntaxError
      | Some finalCtx \<Rightarrow> bindE (objectKeys newCtx) (overlay finalCtx newCtx)))"

definition partialTemplate ::
  "(int \<Rightarrow> string) \<Rightarrow> (jsval \<Rightarrow> error + string) \<Rightarrow> jsval \<Rightarrow> jsval \<Rightarrow> error + string" where
  "partialTemplate fmt tmpl ctx newCtx = bindE (templateInput fmt ctx newCtx) tmpl"

text \<open>A value that holds no \<^verbatim>\<open>Date\<close>, function, \<^verbatim>\<open>undefined\<close> or \<^verbatim>\<open>NaN\<close> at any depth.\<close>

fun jsonClean :: "jsval \<Rightarrow> bool" where
  "jsonClean JUndefined = False"
| "jsonClean JNaN = False"
| "jsonClean (JDate t) = False"
| "jsonClean (JFun f) = False"
| "jsonClean (JArr xs) = list_all jsonClean xs"
| "jsonClean (JObj fs) = list_all (\<lambda>kv. jsonClean (snd kv)) fs"
| "jsonClean _ = True"

subsection \<open>Layout resolver: \<^verbatim>\<open>getLayout\<close> (lines 136-148)\<close>

text \<open>
  A layout is the wrapped render function with its \<^verbatim>\<open>filename\<close> property. The engine
  holds the files of \<^verbatim>\<open>_layouts/\<close>, \<^verbatim>\<open>Handlebars.compile\<close>, and \<open>globalCtx\<close>: the value
  of a global variable named \<^verbatim>\<open>ctx\<close>, if there is one. \<^verbatim>\<open>getLayout\<close> is declared at module
  level, so the \<^verbatim>\<open>ctx\<close> of line 142 is not the local variable of \<^verbatim>\<open>generate\<close> (line 154):
  the identifier is looked up in the global scope, and evaluating it throws a
  \<open>ReferenceError\<close> when no such global exists, as in this program.

  The build state holds the layout cache \<^verbatim>\<open>layouts\<close>, the log of the layout files read and
  compiled (line 140), and the output tree: the directories made and the files written. An
  exception leaves the state as it is at the throw.
\<close>

record layout =
  filename :: string
  render :: "jsval \<Rightarrow> error + string"

record engine =
  layoutFiles :: "string \<rightharpoonup> string"
  compile :: "string \<Rightarrow> jsval \<Rightarrow> error + string"
  globalCtx :: "jsval option"
  toISOString :: "int \<Rightarrow> string"

record build =
  layouts :: "(string \<times> layout) list"
  compiled :: "string list"
  dirs :: "string list"
  written :: "(string \<times> string) list"

definition getLayout :: "engine \<Rightarrow> string \<Rightarrow> build \<Rightarrow> (error + layout) \<times> build" where
  "getLayout e name0 st =
     (let name = (if indexOf ''.'' name0 = None then name0 @ ''.html'' else name0) in
      case map_of (layouts st) name of
        Some l \<Rightarrow> (Inr l, st)
      | None \<Rightarrow>
          (case layoutFiles e name of
             None \<Rightarrow> (Inl ENOENT, st)
           | Some source \<Rightarrow>
               (let st1 = st\<lparr>compiled := compiled st @ [name]\<rparr> in
                case globalCtx e of
                  None \<Rightarrow> (Inl ReferenceError, st1)
                | Some ctx \<Rightarrow>
                    (let mergedTmpl =
                           \<lparr>filename = name,
                            render = partialTemplate (toISOString e) (compile e source) ctx\<rparr>
                     in (Inr mergedTmpl, st1\<lparr>layouts := layouts st1 @ [(name, mergedTmpl)]\<rparr>)))))"

subsection \<open>Site emitter: \<^verbatim>\<open>generate\<close> (lines 150-197)\<close>

text \<open>
  \<^verbatim>\<open>ensureDirectories\<close> (lines 101-107) makes every missing directory whose path is a prefix
  of \<open>path\<close> that ends in a slash, the shortest first. Modelled from the spec:
  \<^verbatim>\<open>util.exists(cur, true)\<close> (the module \<^verbatim>\<open>./util\<close> is not among the sources) tells whether
  the directory exists; the output tree is empty after line 157.
\<close>

definition outPath :: "string \<Rightarrow> string" where
  "outPath file = ''_site/'' @ file"

definition dirPrefixes :: "string \<Rightarrow> string list" where
  "dirPrefixes path = map (\<lambda>i. take (Suc i) path) (filter (\<lambda>i. path ! i = CHR ''/'') [0..<length path])"

definition ensureDirectories :: "string \<Rightarrow> build \<Rightarrow> build" where
  "ensureDirectories path st =
     fold (\<lambda>cur s. if cur \<in> set (dirs s) then s else s\<lparr>dirs := dirs s @ [cur]\<rparr>) (dirPrefixes path) st"

text \<open>
  \<^verbatim>\<open>post.layout || "post.html"\<close> as the \<open>name\<close> of \<^verbatim>\<open>getLayout\<close>: line 138 calls
  \<^verbatim>\<open>name.indexOf\<close>, which a number, a boolean or a plain object does not have.
\<close>

fun layoutName :: "jsval \<Rightarrow> string \<Rightarrow> error + string" where
  "layoutName (JStr s) dflt = Inr (if s = [] then dflt else s)"
| "layoutName (JArr xs) dflt = Inl OutOfModel"
| "layoutName (JObj fs) dflt =
     (case getProp (JObj fs) ''indexOf'' of JFun f \<Rightarrow> Inl OutOfModel | _ \<Rightarrow> Inl TypeError)"
| "layoutName v dflt = (if truthy v then Inl TypeError else Inr dflt)"



text \<open>
  Lines 164-196: the walk over the source tree. A directory lists its entries in the order
  of \<^verbatim>\<open>fs.readdirSync\<close>.
\<close>

datatype node = File string | Dir "(string \<times> node) list"

text \<open>
  \<^verbatim>\<open>path.slice(2).indexOf(exclude) === 0\<close> (line 166) and \<^verbatim>\<open>/^[_\.]/.test(fname)\<close>
  (line 171).
\<close>

definition isExcluded :: "config \<Rightarrow> string \<Rightarrow> bool" where
  "isExcluded cfg path = list_ex (\<lambda>ex. prefix ex (drop 2 path)) (exclude cfg)"

definition reserved :: "string \<Rightarrow> bool" where
  "reserved fname = (case fname of [] \<Rightarrow> False | c # cs \<Rightarrow> c = CHR ''_'' \<or> c = CHR ''.'')"

text \<open>
  Line 188: \<^verbatim>\<open>layout.filename.match(/(\.\w+|)$/)[1]\<close> is the last dot of the name with what
  follows it, when that is a non-empty run of word characters, and the empty string
  otherwise; \<^verbatim>\<open>out.replace(/\.(md|markdown)$/, ...)\<close> replaces a final \<^verbatim>\<open>.md\<close> or
  \<^verbatim>\<open>.markdown\<close> and nothing else.
\<close>

definition isWordChar :: "char \<Rightarrow> bool" where
  "isWordChar c =
     (let n = (of_char c :: nat)
      in (48 \<le> n \<and> n \<le> 57) \<or> (65 \<le> n \<and> n \<le> 90) \<or> n = 95 \<or> (97 \<le> n \<and> n \<le> 122))"

definition layoutExt :: "string \<Rightarrow> string" where
  "layoutExt name =
     (case splitLastDot name of
        None \<Rightarrow> []
      | Some (stem, ext) \<Rightarrow> if ext \<noteq> [] \<and> list_all isWordChar ext then CHR ''.'' # ext else [])"

definition markdownName :: "string \<Rightarrow> bool" where
  "markdownName s = (suffix ''.md'' s \<or> suffix ''.markdown'' s)"

definition replaceMarkdownExt :: "string \<Rightarrow> string \<Rightarrow> string" where
  "replaceMarkdownExt out ext =
     (if suffix ''.md'' out then take (length out - 3) out @ ext
      else if suffix ''.markdown'' out then take (length out - 9) out @ ext
      else out)"

text \<open>
  Line 186: \<^verbatim>\<open>fname.match(/^(.*?)\.[^\.]+$/)[1]\<close>. Without a match the index into
  \<^verbatim>\<open>null\<close> throws.
\<close>

definition stemOf :: "string \<Rightarrow> error + string" where
  "stemOf fname =
     (case splitLastDot fname of
        None \<Rightarrow> Inl TypeError
      | Some (stem, ext) \<Rightarrow>
          if ext \<noteq> [] \<and> \<not> list_ex lineTerminator stem then Inr stem else Inl TypeError)"

text \<open>
  Lines 183-187 (\<open>prepareDoc\<close>) and lines 177-192 (\<open>walkFile\<close>). Modelled from the spec:
  \<^verbatim>\<open>util.copyFileSync(file, out)\<close> writes the bytes of the source file at \<open>out\<close>.
\<close>

definition prepareDoc :: "host \<Rightarrow> string \<Rightarrow> string \<Rightarrow> contents \<Rightarrow> error + jsval" where
  "prepareDoc h file fname contents =
     bindE (setProp (frontMatter contents) ''content''
              (JStr (if markdownName fname then renderMarkdown h (mainText contents)
                     else mainText contents))) (\<lambda>d1.
     bindE (stemOf fname) (\<lambda>stem.
     bindE (setProp d1 ''name'' (JStr stem)) (\<lambda>d2.
     setProp d2 ''url'' (JStr file))))"

definition walkFile ::
  "engine \<Rightarrow> host \<Rightarrow> config \<Rightarrow> string \<Rightarrow> string \<Rightarrow> string \<Rightarrow> build \<Rightarrow> (error + unit) \<times> build" where
  "walkFile e h cfg file fname content st =
     (let out = outPath file;
          st1 = ensureDirectories out st in
      case readContents (yamlLoad h) content of
        Inl err \<Rightarrow> (Inl err, st1)
      | Inr contents \<Rightarrow>
          if truthy (frontMatter contents) then
            (case layoutName (getProp (frontMatter contents) ''layout'') ''default.html'' of
               Inl err \<Rightarrow> (Inl err, st1)
             | Inr name \<Rightarrow>
                 (case getLayout e name st1 of
                    (Inl err, st2) \<Rightarrow> (Inl err, st2)
                  | (Inr l, st2) \<Rightarrow>
                      (case bindE (prepareDoc h file fname contents) (render l) of
                         Inl err \<Rightarrow> (Inl err, st2)
                       | Inr text \<Rightarrow>
                           (Inr (),
                            st2\<lparr>written := written st2 @
                                  [(replaceMarkdownExt out (layoutExt (filename l)), text)]\<rparr>))))
          else (Inr (), st1\<lparr>written := written st1 @ [(out, content)]\<rparr>))"

fun walkDir ::
  "engine \<Rightarrow> host \<Rightarrow> config \<Rightarrow> string \<Rightarrow> (string \<times> node) list \<Rightarrow> build \<Rightarrow> (error + unit) \<times> build" where
  "walkDir e h cfg dir [] st = (Inr (), st)"
| "walkDir e h cfg dir ((fname, nd) # rest) st =
     (if reserved fname then walkDir e h cfg dir rest st
      else if isExcluded cfg (dir @ fname) then walkDir e h cfg dir rest st
      else
        (case (case nd of
                 Dir sub \<Rightarrow> walkDir e h cfg (dir @ fname @ ''/'') sub st
               | File content \<Rightarrow> walkFile e h cfg (dir @ fname) fname content st) of
           (Inl err, st1) \<Rightarrow> (Inl err, st1)
         | (Inr u, st1) \<Rightarrow> walkDir e h cfg dir rest st1))"

text \<open>
  Notions used to state the properties: the normalised layout name of line 138, a post
  that is not a link post, the source tree without its reserved entries (at every level),
  the paths of the files the walk may visit, a cache whose layouts carry their key as
  file name, and the output paths that mirror a source file.
\<close>

definition normalName :: "string \<Rightarrow> string" where
  "normalName name0 = (if indexOf ''.'' name0 = None then name0 @ ''.html'' else name0)"


fun prune :: "(string \<times> node) list \<Rightarrow> (string \<times> node) list" where
  "prune [] = []"
| "prune ((fname, File content) # rest) =
     (if reserved fname then prune rest else (fname, File content) # prune rest)"
| "prune ((fname, Dir sub) # rest) =
     (if reserved fname then prune rest else (fname, Dir (prune sub)) # prune rest)"

fun visiblePaths :: "(string \<times> node) list \<Rightarrow> string list" where
  "visiblePaths [] = []"
| "visiblePaths ((fname, File content) # rest) =
     (if reserved fname then [] else [fname]) @ visiblePaths rest"
| "visiblePaths ((fname, Dir sub) # rest) =
     (if reserved fname then [] else map (\<lambda>p. fname @ ''/'' @ p) (visiblePaths sub))
       @ visiblePaths rest"


definition mirrored :: "string \<Rightarrow> string \<Rightarrow> bool" where
  "mirrored file path =
     (path = outPath file \<or> (\<exists>name. path = replaceMarkdownExt (outPath file) (layoutExt name)))"

definition onlyFrom :: "string set \<Rightarrow> build \<Rightarrow> build \<Rightarrow> bool" where
  "onlyFrom P st st' =
     ((\<exists>new. written st' = written st @ new \<and>
             (\<forall>(path, out) \<in> set new. \<exists>f \<in> P. mirrored f path)) \<and>
      (\<forall>d \<in> set (dirs st'). d \<in> set (dirs st) \<or> (\<exists>f \<in> P. prefix d (outPath f))))"

fun joinPath :: "string list \<Rightarrow> string" where
  "joinPath [] = []"
| "joinPath [n] = n"
| "joinPath (n # ns) = n @ ''/'' @ joinPath ns"



text \<open>The state at line 158, and concrete inputs used to instantiate the theorems.\<close>

definition initialBuild :: build where
  "initialBuild = \<lparr>layouts = [], compiled = [], dirs = [], written = []\<rparr>"

definition exampleEngine :: engine where
  "exampleEngine =
     \<lparr>layoutFiles = map_of [(''default.html'', ''<html/>''), (''post.html'', ''<post/>'')],
      compile = (\<lambda>source ctx. Inr source),
      globalCtx = None,
      toISOString = (\<lambda>t. ''2024-03-05T00:00:00.000Z'')\<rparr>"

definition engineWithCtx :: engine where
  "engineWithCtx = exampleEngine\<lparr>globalCtx := Some (JObj [(''site'', JObj [])])\<rparr>"

definition exampleDoc :: string where
  "exampleDoc = ''---'' @ [NL] @ ''title: x'' @ [NL] @ ''---'' @ [NL] @ ''body''"

definition exampleTree :: "(string \<times> node) list" where
  "exampleTree =
     [(''_posts'', Dir [(''2024-3-5-hello.md'', File exampleDoc)]),
      (''css'', Dir [(''.cache'', File ''tmp''), (''_draft.md'', File exampleDoc),
                    (''site.css'', File ''body {}'')]),
      (''about.md'', File exampleDoc),
      (''.git'', Dir [(''config'', File ''x'')])]"

definition exampleCtx :: jsval where
  "exampleCtx =
     JObj [(''site'', JObj [(''posts'', JArr [JObj [(''name'', JStr ''hello''), (''date'', JDate 5)]])]),
           (''dateFormat'', JFun 0),
           (''built'', JDate 7)]"

subsection \<open>Context merging on a store of objects\<close>






















section \<open>Verified properties\<close>

subsection \<open>Front-matter splitter\<close>

lemma indexOf_Some_iff:
  "indexOf pat s = Some i \<longleftrightarrow>
     (i \<le> length s \<and> prefix pat (drop i s) \<and> (\<forall>j<i. \<not> prefix pat (drop j s)))"
proof (induction s arbitrary: i)
  case Nil
  show ?case by auto
next
  case (Cons c cs)
  show ?case
  proof (cases "prefix pat (c # cs)")
    case True
    then show ?thesis by (cases i) auto
  next
    case False
    show ?thesis
    proof (cases i)
      case 0
      with False show ?thesis by simp
    next
      case (Suc k)
      have "(\<forall>j<Suc k. \<not> prefix pat (drop j (c # cs))) \<longleftrightarrow> (\<forall>j<k. \<not> prefix pat (drop j cs))"
        using False by (auto simp: less_Suc_eq_0_disj)
      with False Suc Cons.IH [of k] show ?thesis by auto
    qed
  qed
qed

lemma all_le_Suc_split:
  "(\<forall>j\<le>Suc n. Q j) \<longleftrightarrow> (Q 0 \<and> (\<forall>j\<le>n. Q (Suc j)))"
proof
  assume "\<forall>j\<le>Suc n. Q j"
  then show "Q 0 \<and> (\<forall>j\<le>n. Q (Suc j))" by simp
next
  assume r: "Q 0 \<and> (\<forall>j\<le>n. Q (Suc j))"
  show "\<forall>j\<le>Suc n. Q j"
  proof (intro allI impI)
    fix j assume "j \<le> Suc n"
    with r show "Q j" by (cases j) simp_all
  qed
qed

lemma indexOf_None_iff:
  "indexOf pat s = None \<longleftrightarrow> (\<forall>j\<le>length s. \<not> prefix pat (drop j s))"
proof (induction s)
  case Nil
  show ?case by auto
next
  case (Cons c cs)
  show ?case
    using Cons.IH by (simp add: all_le_Suc_split)
qed

lemma length_fence [simp]: "length fence = 4"
  by (simp add: fence_def)

lemma prefix_NL_fence_Cons:
  "prefix (NL # fence) (c # cs) \<longleftrightarrow> c = NL \<and> prefix fence cs"
  by auto

lemma not_prefix_NL_fence:
  "\<not> prefix (NL # fence) (drop k (fence @ rest))" if "k < 3"
proof -
  from that have "k = 0 \<or> k = 1 \<or> k = 2" by arith
  then show ?thesis
    by (auto simp: fence_def NL_def)
qed

lemma fence_match_iff:
  assumes "prefix fence text"
  shows "prefix (NL # fence) (drop e text) \<longleftrightarrow> (3 \<le> e \<and> headerAt text (e - 3))"
proof -
  obtain rest where tx: "text = fence @ rest"
    using assms by (auto simp: prefix_def)
  show ?thesis
  proof (cases "e < 3")
    case True
    then show ?thesis
      using not_prefix_NL_fence [of e rest] by (simp add: tx)
  next
    case ge3: False
    show ?thesis
    proof (cases "e = 3")
      case True
      have "drop 3 fence = [NL]" by (simp add: fence_def)
      then show ?thesis
        using True by (simp add: tx headerAt_def completeLines_def)
    next
      case ne3: False
      define n where "n = e - 4"
      have e: "e = 4 + n" using ge3 ne3 by (simp add: n_def)
      have d: "drop e text = drop n rest" "drop (4 + (e - 3)) text = drop (Suc n) rest"
        "take (e - 3) (drop 4 text) = take (Suc n) rest" "drop (Suc e) text = drop (Suc n) rest"
        using e by (simp_all add: tx)
      show ?thesis
      proof (cases "n < length rest")
        case True
        then have "drop n rest = rest ! n # drop (Suc n) rest"
          by (simp add: Cons_nth_drop_Suc)
        moreover have "last (take (Suc n) rest) = rest ! n" "take (Suc n) rest \<noteq> []"
          using True by (auto simp: take_Suc_conv_app_nth)
        ultimately show ?thesis
          using assms ge3 by (auto simp: headerAt_def completeLines_def d)
      next
        case False
        then show ?thesis
          by (simp add: headerAt_def d fence_def)
      qed
    qed
  qed
qed


lemma headerAt_out_of_range:
  "\<not> headerAt text n" if "length text < n + 3"
  using that by (simp add: headerAt_def fence_def)

lemma indexOf_fence_find:
  assumes "prefix fence text"
  shows "indexOf (NL # fence) text =
         map_option (\<lambda>n. n + 3) (find (headerAt text) [0..<Suc (length text)])"
proof (cases "indexOf (NL # fence) text")
  case None
  have "\<not> headerAt text n" for n
  proof (cases "length text < n + 3")
    case True
    then show ?thesis by (rule headerAt_out_of_range)
  next
    case False
    then have "n + 3 \<le> length text" by simp
    with None have "\<not> prefix (NL # fence) (drop (n + 3) text)"
      by (simp add: indexOf_None_iff)
    then show ?thesis
      using fence_match_iff [OF assms, of "n + 3"] by simp
  qed
  then have "find (headerAt text) [0..<Suc (length text)] = None"
    by (simp add: find_None_iff)
  with None show ?thesis by simp
next
  case (Some e)
  then have e: "e \<le> length text" "prefix (NL # fence) (drop e text)"
    and least: "\<And>j. j < e \<Longrightarrow> \<not> prefix (NL # fence) (drop j text)"
    by (simp_all add: indexOf_Some_iff)
  from e(2) have ge: "3 \<le> e" and at: "headerAt text (e - 3)"
    using fence_match_iff [OF assms, of e] by simp_all
  have before: "\<not> headerAt text n" if "n < e - 3" for n
  proof -
    from that have "n + 3 < e" by simp
    then have "\<not> prefix (NL # fence) (drop (n + 3) text)" by (rule least)
    then show ?thesis
      using fence_match_iff [OF assms, of "n + 3"] by simp
  qed
  have "find (headerAt text) [0..<Suc (length text)] = Some (e - 3)"
    unfolding find_Some_iff
  proof (intro exI [of _ "e - 3"] conjI allI impI)
    show "e - 3 < length [0..<Suc (length text)]" using e(1) by simp
    then show "headerAt text ([0..<Suc (length text)] ! (e - 3))"
      using at by (simp del: upt_Suc)
    show "e - 3 = [0..<Suc (length text)] ! (e - 3)"
      using e(1) by (simp del: upt_Suc)
    fix j assume "j < e - 3"
    moreover from this e(1) have "[0..<Suc (length text)] ! j = j"
      by (simp del: upt_Suc)
    ultimately show "\<not> headerAt text ([0..<Suc (length text)] ! j)"
      using before by simp
  qed
  with Some ge show ?thesis by simp
qed

lemma headerSplit_no_fence:
  "headerSplit text = None" if "\<not> prefix fence text"
  using that by (simp add: headerSplit_def find_None_iff headerAt_def)

lemma readContents_headerSplit:
  "readContents y text =
     (case headerSplit text of
        None \<Rightarrow> Inr \<lparr>frontMatter = JNull, mainText = text\<rparr>
      | Some (block, body) \<Rightarrow>
          (case y block of
             Inl err \<Rightarrow> Inl err
           | Inr v \<Rightarrow> Inr \<lparr>frontMatter = (if truthy v then v else JObj []), mainText = body\<rparr>))"
proof (cases "prefix fence text")
  case False
  then show ?thesis
    by (simp add: readContents_def headerSplit_no_fence)
next
  case True
  show ?thesis
  proof (cases "find (headerAt text) [0..<Suc (length text)]")
    case None
    then show ?thesis
      using True indexOf_fence_find [OF True]
      by (simp add: readContents_def headerSplit_def)
  next
    case (Some n)
    then have "indexOf (NL # fence) text = Some (n + 3)"
      using indexOf_fence_find [OF True] by simp
    moreover have "slice 4 (n + 3 + 1) text = take n (drop 4 text)"
      by (simp add: slice_def)
    ultimately show ?thesis
      using True Some by (simp add: readContents_def headerSplit_def ac_simps split: sum.splits)
  qed
qed

lemma headerSplit_sound:
  assumes "headerSplit text = Some (block, body)"
  shows "text = fence @ block @ fence @ body \<and> completeLines block"
proof -
  from assms obtain n where n: "find (headerAt text) [0..<Suc (length text)] = Some n"
    and block: "block = take n (drop 4 text)" and body: "body = drop (8 + n) text"
    by (auto simp: headerSplit_def)
  from n have at: "headerAt text n"
    by (auto simp: find_Some_iff)
  then obtain r where r: "text = fence @ r"
    by (auto simp: headerAt_def prefix_def)
  from at r obtain b where b: "drop n r = fence @ b"
    by (auto simp: headerAt_def prefix_def)
  have cl: "completeLines (take n r)"
    using at by (simp add: headerAt_def r)
  have "drop (8 + n) text = drop 4 (drop n r)"
    by (simp add: r add.commute)
  then have "body = b" by (simp add: body b)
  moreover have "r = take n r @ drop n r" by simp
  ultimately have "text = fence @ take n r @ fence @ body"
    using r b by simp
  moreover have "block = take n r" by (simp add: block r)
  ultimately show ?thesis
    using cl by simp
qed

lemma headerSplit_complete:
  assumes "text = fence @ block @ fence @ body" "completeLines block"
  shows "headerSplit text \<noteq> None"
proof -
  have "headerAt text (length block)"
    using assms by (simp add: headerAt_def)
  moreover have "length block \<in> set [0..<Suc (length text)]"
    using assms(1) by simp
  ultimately have "find (headerAt text) [0..<Suc (length text)] \<noteq> None"
    unfolding find_None_iff by blast
  then show ?thesis by (simp add: headerSplit_def)
qed

lemma truthy_not_null: "truthy v \<Longrightarrow> v \<noteq> JNull"
  by auto

text \<open>
  Claim C1. The splitter returns metadata \<open>null\<close> and the whole text as body exactly when
  the text has no header block (no opening delimiter line at the very start, or no closing
  delimiter line after it). When both delimiter lines are there, either the YAML parser
  throws, or the returned metadata is not \<open>null\<close>: it is the parsed block, or the empty
  mapping when the block parses to a falsy value (empty block, \<open>null\<close>); the body is the text
  after the closing delimiter. A delimiter line is three dashes followed by a newline.
\<close>

theorem readContents_null_iff_no_header:
  "(headerSplit text = None \<longrightarrow>
      readContents y text = Inr \<lparr>frontMatter = JNull, mainText = text\<rparr>) \<and>
   (\<forall>block body. headerSplit text = Some (block, body) \<longrightarrow>
      (case y block of
         Inl err \<Rightarrow> readContents y text = Inl err
       | Inr v \<Rightarrow>
           (\<exists>m. readContents y text = Inr \<lparr>frontMatter = m, mainText = body\<rparr> \<and>
                m \<noteq> JNull \<and> m = (if truthy v then v else JObj []))))"
  by (auto simp: readContents_headerSplit split: sum.splits dest: truthy_not_null)

theorem readContents_null_iff_no_header_witness:
  "headerSplit (''---'' @ [NL] @ ''---'' @ [NL] @ ''body'') = Some ([], ''body'') \<and>
   readContents (\<lambda>b. Inr JNull) (''---'' @ [NL] @ ''---'' @ [NL] @ ''body'') =
     Inr \<lparr>frontMatter = JObj [], mainText = ''body''\<rparr> \<and>
   headerSplit (''---'' @ [NL] @ ''a: 1'' @ [NL] @ ''---'') = None \<and>
   readContents (\<lambda>b. Inr JNull) (''---'' @ [NL] @ ''a: 1'' @ [NL] @ ''---'') =
     Inr \<lparr>frontMatter = JNull, mainText = ''---'' @ [NL] @ ''a: 1'' @ [NL] @ ''---''\<rparr>"
proof -
  have h1: "headerSplit (''---'' @ [NL] @ ''---'' @ [NL] @ ''body'') = Some ([], ''body'')"
    by (simp add: headerSplit_def headerAt_def fence_def completeLines_def NL_def)
  have h2: "headerSplit (''---'' @ [NL] @ ''a: 1'' @ [NL] @ ''---'') = None"
    by (simp add: headerSplit_def headerAt_def fence_def completeLines_def NL_def)
  show ?thesis
    using h1 h2
      readContents_null_iff_no_header [of "''---'' @ [NL] @ ''---'' @ [NL] @ ''body''" "\<lambda>b. Inr JNull"]
      readContents_null_iff_no_header [of "''---'' @ [NL] @ ''a: 1'' @ [NL] @ ''---''" "\<lambda>b. Inr JNull"]
    by simp
qed

subsection \<open>Template substitution\<close>

lemma getSubstitution_plain:
  "plain v \<Longrightarrow> getSubstitution m b a v = v"
  by (induction m b a v rule: getSubstitution.induct) (auto simp: plain_def)

lemma replace_plain:
  "plain v \<Longrightarrow> replace s pat v =
     (case indexOf pat s of None \<Rightarrow> s | Some i \<Rightarrow> take i s @ v @ drop (i + length pat) s)"
  by (simp add: replace_def getSubstitution_plain split: option.splits)

lemma indexOf_skip:
  "(\<And>i. i < length u \<Longrightarrow> \<not> prefix pat (drop i (u @ t))) \<Longrightarrow>
     indexOf pat (u @ t) = map_option (\<lambda>i. length u + i) (indexOf pat t)"
proof (induction u)
  case Nil
  show ?case by (simp add: option.map_ident)
next
  case (Cons c u)
  have "\<not> prefix pat (drop i (u @ t))" if "i < length u" for i
    using Cons.prems [of "Suc i"] that by simp
  then have "indexOf pat (u @ t) = map_option (\<lambda>i. length u + i) (indexOf pat t)"
    by (rule Cons.IH)
  moreover have "\<not> prefix pat (c # u @ t)"
    using Cons.prems [of 0] by simp
  ultimately show ?case
    by (simp add: option.map_comp comp_def)
qed

lemma replace_skip:
  assumes "plain v" "\<And>i. i < length u \<Longrightarrow> \<not> prefix pat (drop i (u @ t))"
  shows "replace (u @ t) pat v = u @ replace t pat v"
  using indexOf_skip [of u pat t, OF assms(2)]
  by (simp add: replace_plain [OF assms(1)] split: option.splits)

lemma no_match_in_plain:
  assumes "plain s" "i < length s"
  shows "\<not> prefix (token k) (drop i (s @ t))"
proof -
  from assms(2) have "drop i (s @ t) = s ! i # drop (Suc i) (s @ t)"
    by (simp add: Cons_nth_drop_Suc nth_append)
  moreover have "s ! i \<noteq> CHR ''$''"
    using assms by (metis plain_def nth_mem)
  ultimately show ?thesis
    by (simp add: token_def)
qed

lemma closing_brace_unique:
  "CHR ''}'' \<notin> set k \<Longrightarrow> CHR ''}'' \<notin> set n \<Longrightarrow>
     prefix (k @ CHR ''}'' # x) (n @ CHR ''}'' # y) \<Longrightarrow> k = n"
proof (induction k arbitrary: n)
  case Nil
  then show ?case by (cases n) auto
next
  case (Cons c k)
  then show ?case by (cases n) auto
qed

lemma no_match_in_token:
  assumes "ident n" "ident k" "n \<noteq> k" "i < length (token n)"
  shows "\<not> prefix (token k) (drop i (token n @ t))"
proof (cases i)
  case 0
  show ?thesis
  proof
    assume "prefix (token k) (drop i (token n @ t))"
    then have "prefix (k @ CHR ''}'' # []) (n @ CHR ''}'' # t)"
      using 0 by (simp add: token_def)
    then have "k = n"
      using assms(1,2) closing_brace_unique [of k n "[]" t] by (simp add: ident_def)
    with assms(3) show False by simp
  qed
next
  case (Suc j)
  have "plain (CHR ''{'' # n @ ''}'')"
    using assms(1) by (simp add: plain_def ident_def)
  moreover have "j < length (CHR ''{'' # n @ ''}'')"
    using assms(4) Suc by (simp add: token_def)
  ultimately have "\<not> prefix (token k) (drop j ((CHR ''{'' # n @ ''}'') @ t))"
    by (rule no_match_in_plain)
  then show ?thesis
    using Suc by (simp add: token_def)
qed

lemma replace_at_token:
  "plain v \<Longrightarrow> replace (token k @ t) (token k) v = v @ t"
proof -
  assume "plain v"
  moreover have "indexOf (token k) (token k @ t) = Some 0"
    by (cases "token k @ t") (simp_all add: token_def)
  ultimately show ?thesis
    by (simp add: replace_plain)
qed

lemma replace_renderSegs:
  assumes "list_all wfSeg segs" "ident k" "plain v"
  shows "replace (renderSegs segs) (token k) v = renderSegs (substFirst (k, v) segs)"
  using assms(1)
proof (induction segs)
  case Nil
  show ?case
    by (simp add: renderSegs_def replace_def token_def)
next
  case (Cons sg segs)
  then have IH: "replace (renderSegs segs) (token k) v = renderSegs (substFirst (k, v) segs)"
    by simp
  show ?case
  proof (cases sg)
    case (Lit s)
    with Cons.prems have "plain s" by simp
    then have "replace (s @ renderSegs segs) (token k) v = s @ replace (renderSegs segs) (token k) v"
      using assms(3) by (intro replace_skip no_match_in_plain)
    with IH Lit show ?thesis
      by (simp add: renderSegs_def)
  next
    case (Tok n)
    with Cons.prems have n: "ident n" by simp
    show ?thesis
    proof (cases "n = k")
      case True
      with Tok show ?thesis
        using replace_at_token [OF assms(3), of k "renderSegs segs"]
        by (simp add: renderSegs_def)
    next
      case False
      have "replace (token n @ renderSegs segs) (token k) v =
              token n @ replace (renderSegs segs) (token k) v"
        using assms(3) n assms(2) False by (intro replace_skip no_match_in_token)
      with IH Tok False show ?thesis
        by (simp add: renderSegs_def)
    qed
  qed
qed

lemma wfSeg_substFirst:
  "list_all wfSeg segs \<Longrightarrow> plain v \<Longrightarrow> list_all wfSeg (substFirst (k, v) segs)"
  by (induction "(k, v)" segs rule: substFirst.induct) auto

lemma fillTemplate_renderSegs:
  "list_all wfSeg segs \<Longrightarrow> list_all wfVar vars \<Longrightarrow>
     fillTemplate (renderSegs segs) vars = renderSegs (fold substFirst vars segs)"
proof (induction vars arbitrary: segs)
  case Nil
  show ?case by (simp add: fillTemplate_def)
next
  case (Cons kv vars)
  obtain k v where kv: "kv = (k, v)" by (cases kv)
  with Cons.prems have w: "ident k" "plain v" "list_all wfVar vars" by simp_all
  have "fillTemplate (renderSegs segs) (kv # vars) =
          fillTemplate (replace (renderSegs segs) (token k) v) vars"
    by (simp add: fillTemplate_def kv)
  also have "\<dots> = fillTemplate (renderSegs (substFirst (k, v) segs)) vars"
    using Cons.prems(1) w by (simp add: replace_renderSegs)
  also have "\<dots> = renderSegs (fold substFirst vars (substFirst (k, v) segs))"
    using Cons.prems(1) w by (intro Cons.IH wfSeg_substFirst)
  finally show ?case by (simp add: kv)
qed


lemma length_substFirst [simp]: "length (substFirst kv segs) = length segs"
  by (induction kv segs rule: substFirst.induct) auto

lemma length_fold_substFirst: "length (fold substFirst vars segs) = length segs"
  by (induction vars arbitrary: segs) auto

lemma substFirst_other_token:
  "i < length segs \<Longrightarrow> segs ! i = Tok n \<Longrightarrow> n \<noteq> k \<Longrightarrow> substFirst (k, v) segs ! i = Tok n"
proof (induction "(k, v)" segs arbitrary: i rule: substFirst.induct)
  case 1
  then show ?case by simp
next
  case (2 s segs)
  then show ?case by (cases i) auto
next
  case (3 m segs)
  then show ?case by (cases i) auto
qed

lemma fold_substFirst_unmatched:
  "i < length segs \<Longrightarrow> segs ! i = Tok n \<Longrightarrow> n \<notin> fst ` set vars \<Longrightarrow>
     fold substFirst vars segs ! i = Tok n"
proof (induction vars arbitrary: segs)
  case Nil
  then show ?case by simp
next
  case (Cons kv vars)
  obtain k v where kv: "kv = (k, v)" by (cases kv)
  with Cons.prems have "n \<noteq> k" "n \<notin> fst ` set vars" by auto
  moreover from this Cons.prems have "substFirst (k, v) segs ! i = Tok n"
    by (simp add: substFirst_other_token)
  ultimately show ?case
    using Cons.prems(1) Cons.IH [of "substFirst (k, v) segs"] by (simp add: kv)
qed

text \<open>
  Claim C2 (amended). For a template made of literal text and \<^verbatim>\<open>${name}\<close> tokens and a
  record (literal text and values without \<^verbatim>\<open>$\<close>, names without \<^verbatim>\<open>$\<close> and \<^verbatim>\<open>}\<close>),
  \<open>fillTemplate\<close> replaces, for each field of the record in enumeration order, the first
  occurrence of the field's token by the field's string value. Every later occurrence of
  the same token stays, and every token whose name is not a field of the record stays at its
  place. No error is raised.
\<close>

theorem fillTemplate_first_occurrence:
  assumes "list_all wfSeg segs" and "list_all wfVar vars"
  shows "fillTemplate (renderSegs segs) vars = renderSegs (fold substFirst vars segs) \<and>
         length (fold substFirst vars segs) = length segs \<and>
         (\<forall>i n. i < length segs \<and> segs ! i = Tok n \<and> n \<notin> fst ` set vars \<longrightarrow>
            fold substFirst vars segs ! i = Tok n)"
  using assms
  by (simp add: fillTemplate_renderSegs length_fold_substFirst fold_substFirst_unmatched)

theorem fillTemplate_first_occurrence_witness:
  "list_all wfSeg [Tok ''name'', Lit ''/'', Tok ''name'', Lit ''-'', Tok ''x''] \<and>
   list_all wfVar [(''name'', ''a'')] \<and>
   fillTemplate ''${name}/${name}-${x}'' [(''name'', ''a'')] = ''a/${name}-${x}''"
proof -
  have w: "list_all wfSeg [Tok ''name'', Lit ''/'', Tok ''name'', Lit ''-'', Tok ''x'']"
    "list_all wfVar [(''name'', ''a'')]"
    by (simp_all add: ident_def plain_def)
  show ?thesis
    using w fillTemplate_first_occurrence [OF w]
    by (simp add: renderSegs_def token_def)
qed

text \<open>
  Claim C2 as stated fails on a repeated token: the second \<^verbatim>\<open>${name}\<close> is not replaced.
\<close>

theorem fillTemplate_repeated_token_counterexample:
  "fillTemplate (renderSegs [Tok ''name'', Lit ''/'', Tok ''name'']) [(''name'', ''a'')]
     = ''a/${name}'' \<and>
   renderSegs (map (substAll [(''name'', ''a'')]) [Tok ''name'', Lit ''/'', Tok ''name''])
     = ''a/a'' \<and>
   fillTemplate (renderSegs [Tok ''name'', Lit ''/'', Tok ''name'']) [(''name'', ''a'')]
     \<noteq> renderSegs (map (substAll [(''name'', ''a'')]) [Tok ''name'', Lit ''/'', Tok ''name''])"
  by (simp add: fillTemplate_def replace_def renderSegs_def token_def)

subsection \<open>Tag indexer\<close>

lemma addTags_spec:
  assumes "tags ''hasOwnProperty'' = None" "''hasOwnProperty'' \<notin> set ts" "''__proto__'' \<notin> set ts"
  shows "addTags post tags ts =
           Inr (\<lambda>T. if count_list ts T = 0 then tags T
                    else Some ((case tags T of None \<Rightarrow> [] | Some b \<Rightarrow> b) @
                               replicate (count_list ts T) post))"
  using assms
proof (induction ts arbitrary: tags)
  case Nil
  show ?case by simp
next
  case (Cons t ts)
  define tags1 where "tags1 = tags(t \<mapsto> (case tags t of None \<Rightarrow> [] | Some b \<Rightarrow> b) @ [post])"
  have step: "addTag post tags t = Inr tags1"
    using Cons.prems by (auto simp: addTag_def tags1_def split: option.splits)
  have "tags1 ''hasOwnProperty'' = None"
    using Cons.prems by (auto simp: tags1_def)
  then have "addTags post tags1 ts =
      Inr (\<lambda>T. if count_list ts T = 0 then tags1 T
               else Some ((case tags1 T of None \<Rightarrow> [] | Some b \<Rightarrow> b) @
                          replicate (count_list ts T) post))"
    using Cons.prems by (intro Cons.IH) auto
  moreover have "(\<lambda>T. if count_list ts T = 0 then tags1 T
               else Some ((case tags1 T of None \<Rightarrow> [] | Some b \<Rightarrow> b) @
                          replicate (count_list ts T) post)) =
        (\<lambda>T. if count_list (t # ts) T = 0 then tags T
                    else Some ((case tags T of None \<Rightarrow> [] | Some b \<Rightarrow> b) @
                               replicate (count_list (t # ts) T) post))"
    by (rule ext) (auto simp: tags1_def replicate_app_Cons_same split: option.splits)
  ultimately show ?case
    using step by simp
qed


lemma gatherPost_spec:
  assumes "tagsOk toStr post" "B ''hasOwnProperty'' = []"
  shows "gatherPost toStr post (indexOfBuckets B) =
           Inr (indexOfBuckets (\<lambda>T. B T @ replicate (count_list (tagKeys toStr post) T) post),
                withTags post)"
proof -
  from assms(1) obtain fs where post: "post = JObj fs"
    by (cases post) (auto simp: tagsOk_def)
  show ?thesis
  proof (cases "truthy (getProp post ''tags'')")
    case False
    then have "tagKeys toStr post = []"
      by (auto simp: tagKeys_def split: jsval.splits)
    with False show ?thesis
      by (simp add: gatherPost_def withTags_def post)
  next
    case True
    with assms(1) obtain xs where xs: "getProp post ''tags'' = JArr xs"
      and ok: "''hasOwnProperty'' \<notin> set (map (propertyKey toStr) xs)"
              "''__proto__'' \<notin> set (map (propertyKey toStr) xs)"
      by (auto simp: tagsOk_def split: jsval.splits)
    have keys: "tagKeys toStr post = map (propertyKey toStr) xs"
      by (simp add: tagKeys_def xs)
    have none: "indexOfBuckets B ''hasOwnProperty'' = None"
      using assms(2) by (simp add: indexOfBuckets_def)
    have "(\<lambda>T. if count_list (map (propertyKey toStr) xs) T = 0 then indexOfBuckets B T
               else Some ((case indexOfBuckets B T of None \<Rightarrow> [] | Some b \<Rightarrow> b) @
                          replicate (count_list (map (propertyKey toStr) xs) T) post)) =
          indexOfBuckets (\<lambda>T. B T @ replicate (count_list (tagKeys toStr post) T) post)"
      by (rule ext) (simp add: keys indexOfBuckets_def)
    with addTags_spec [of "indexOfBuckets B" "map (propertyKey toStr) xs" post, OF none ok]
    have "addTags post (indexOfBuckets B) (map (propertyKey toStr) xs) =
            Inr (indexOfBuckets (\<lambda>T. B T @ replicate (count_list (tagKeys toStr post) T) post))"
      by simp
    with True show ?thesis
      by (simp add: gatherPost_def xs withTags_def del: getProp.simps)
  qed
qed

lemma gatherLoop_spec:
  assumes "list_all (tagsOk toStr) posts" "B ''hasOwnProperty'' = []"
  shows "gatherLoop toStr posts (indexOfBuckets B) =
           Inr (indexOfBuckets (\<lambda>T. B T @ bucket toStr T posts), map withTags posts)"
  using assms
proof (induction posts arbitrary: B)
  case Nil
  show ?case by (simp add: bucket_def)
next
  case (Cons post posts)
  define B1 where "B1 = (\<lambda>T. B T @ replicate (count_list (tagKeys toStr post) T) post)"
  from Cons.prems have ok: "tagsOk toStr post" "list_all (tagsOk toStr) posts" by simp_all
  have step: "gatherPost toStr post (indexOfBuckets B) = Inr (indexOfBuckets B1, withTags post)"
    unfolding B1_def using ok(1) Cons.prems(2) by (rule gatherPost_spec)
  have "''hasOwnProperty'' \<notin> set (tagKeys toStr post)"
    using ok(1) by (auto simp: tagsOk_def tagKeys_def split: jsval.splits)
  then have "B1 ''hasOwnProperty'' = []"
    using Cons.prems(2) by (simp add: B1_def count_list_0_iff)
  with ok(2) have "gatherLoop toStr posts (indexOfBuckets B1) =
      Inr (indexOfBuckets (\<lambda>T. B1 T @ bucket toStr T posts), map withTags posts)"
    by (rule Cons.IH)
  moreover have "(\<lambda>T. B1 T @ bucket toStr T posts) = (\<lambda>T. B T @ bucket toStr T (post # posts))"
    by (simp add: B1_def bucket_def)
  ultimately show ?case
    using step by simp
qed

lemma gatherTags_spec:
  assumes "list_all (tagsOk toStr) posts"
  shows "gatherTags toStr posts =
           Inr (indexOfBuckets (\<lambda>T. bucket toStr T posts), map withTags posts)"
proof -
  have e: "indexOfBuckets (\<lambda>T. []) = Map.empty"
    by (simp add: indexOfBuckets_def)
  show ?thesis
    using gatherLoop_spec [OF assms, of "\<lambda>T. []"] by (simp add: gatherTags_def e)
qed

lemma bucket_Cons:
  "bucket toStr T (p # posts) =
     replicate (count_list (tagKeys toStr p) T) p @ bucket toStr T posts"
  by (simp add: bucket_def)

lemma postsTagged_Cons:
  "postsTagged toStr T (p # posts) =
     (if T \<in> set (tagKeys toStr p) then p # postsTagged toStr T posts
      else postsTagged toStr T posts)"
  by (simp add: postsTagged_def)

lemma bucket_empty_iff:
  "bucket toStr T posts = [] \<longleftrightarrow> postsTagged toStr T posts = []"
proof (induction posts)
  case Nil
  show ?case by (simp add: bucket_def postsTagged_def)
next
  case (Cons p posts)
  have "count_list (tagKeys toStr p) T = 0 \<longleftrightarrow> T \<notin> set (tagKeys toStr p)"
    by (rule count_list_0_iff)
  with Cons show ?case
    by (simp add: bucket_Cons postsTagged_Cons)
qed

lemma count_list_distinct:
  "distinct xs \<Longrightarrow> count_list xs x = (if x \<in> set xs then 1 else 0)"
  by (induction xs) auto

lemma bucket_distinct:
  "list_all (\<lambda>p. distinct (tagKeys toStr p)) posts \<Longrightarrow>
     bucket toStr T posts = postsTagged toStr T posts"
proof (induction posts)
  case Nil
  show ?case by (simp add: bucket_def postsTagged_def)
next
  case (Cons p posts)
  then have "count_list (tagKeys toStr p) T = (if T \<in> set (tagKeys toStr p) then 1 else 0)"
    by (simp add: count_list_distinct)
  with Cons show ?case
    by (simp add: bucket_Cons postsTagged_Cons)
qed

text \<open>
  Claim C6 (amended). For a collection of posts whose tags are arrays (or absent), with no
  tag named \<^verbatim>\<open>hasOwnProperty\<close> or \<^verbatim>\<open>__proto__\<close>, the indexer returns the index whose
  keys are exactly the tags carried by some post, and the bucket of a tag holds, in
  collection order, each post once for every occurrence of the tag in its tags. When no post
  repeats a tag, the bucket is exactly the list of posts whose tags include the tag. A post
  without tags is in no bucket and gets an empty \<^verbatim>\<open>tags\<close> array.
\<close>

theorem gatherTags_buckets:
  assumes "list_all (tagsOk toStr) posts"
  shows "gatherTags toStr posts =
           Inr (indexOfBuckets (\<lambda>T. bucket toStr T posts), map withTags posts) \<and>
         (bucket toStr T posts = [] \<longleftrightarrow> postsTagged toStr T posts = []) \<and>
         (list_all (\<lambda>p. distinct (tagKeys toStr p)) posts \<longrightarrow>
            bucket toStr T posts = postsTagged toStr T posts)"
  using assms by (simp add: gatherTags_spec bucket_empty_iff bucket_distinct)

theorem gatherTags_buckets_witness:
  "list_all (tagsOk (\<lambda>v. []))
     [JObj [(''tags'', JArr [JStr ''a'', JStr ''b''])], JObj [], JObj [(''tags'', JArr [JStr ''b''])]] \<and>
   tagBucket (\<lambda>v. [])
     [JObj [(''tags'', JArr [JStr ''a'', JStr ''b''])], JObj [], JObj [(''tags'', JArr [JStr ''b''])]]
     ''b'' =
     Some [JObj [(''tags'', JArr [JStr ''a'', JStr ''b''])], JObj [(''tags'', JArr [JStr ''b''])]] \<and>
   tagBucket (\<lambda>v. [])
     [JObj [(''tags'', JArr [JStr ''a'', JStr ''b''])], JObj [], JObj [(''tags'', JArr [JStr ''b''])]]
     ''c'' = None"
proof -
  define P where "P =
     [JObj [(''tags'', JArr [JStr ''a'', JStr ''b''])], JObj [], JObj [(''tags'', JArr [JStr ''b''])]]"
  have ok: "list_all (tagsOk (\<lambda>v. [])) P"
    by (simp add: P_def tagsOk_def propertyKey_def)
  have g: "gatherTags (\<lambda>v. []) P =
             Inr (indexOfBuckets (\<lambda>T. bucket (\<lambda>v. []) T P), map withTags P)"
    using gatherTags_buckets [OF ok] by (rule conjunct1)
  have t: "tagBucket (\<lambda>v. []) P T = indexOfBuckets (\<lambda>T. bucket (\<lambda>v. []) T P) T" for T
    by (simp add: tagBucket_def g)
  have "tagBucket (\<lambda>v. []) P ''b'' =
          Some [JObj [(''tags'', JArr [JStr ''a'', JStr ''b''])], JObj [(''tags'', JArr [JStr ''b''])]]"
    unfolding t by (simp add: P_def indexOfBuckets_def bucket_def tagKeys_def propertyKey_def)
  moreover have "tagBucket (\<lambda>v. []) P ''c'' = None"
    unfolding t by (simp add: P_def indexOfBuckets_def bucket_def tagKeys_def propertyKey_def)
  ultimately show ?thesis
    using ok unfolding P_def by simp
qed

text \<open>
  Claim C6 as stated fails for a post that repeats a tag: the post is pushed once per
  occurrence, so the bucket holds it twice.
\<close>

theorem gatherTags_duplicate_tag_counterexample:
  "tagBucket (\<lambda>v. []) [JObj [(''tags'', JArr [JStr ''a'', JStr ''a''])]] ''a'' =
     Some [JObj [(''tags'', JArr [JStr ''a'', JStr ''a''])],
           JObj [(''tags'', JArr [JStr ''a'', JStr ''a''])]] \<and>
   postsTagged (\<lambda>v. []) ''a'' [JObj [(''tags'', JArr [JStr ''a'', JStr ''a''])]] =
     [JObj [(''tags'', JArr [JStr ''a'', JStr ''a''])]]"
  by (simp add: tagBucket_def gatherTags_def gatherPost_def addTag_def propertyKey_def
      postsTagged_def tagKeys_def)

subsection \<open>Post collector\<close>

lemma bindE_Inr_iff:
  "bindE m f = Inr y \<longleftrightarrow> (\<exists>x. m = Inr x \<and> f x = Inr y)"
  by (cases m) (simp_all add: bindE_def)

lemma map_of_updateProp:
  "map_of (updateProp k v fs) k' = (if k' = k then Some v else map_of fs k')"
  by (induction fs) auto









lemma collectPosts_sound:
  "collectPosts h cfg entries = Inr posts \<Longrightarrow> p \<in> set posts \<Longrightarrow>
     \<exists>e \<in> set entries. readPost h cfg e = Inr (Some p)"
proof (induction entries arbitrary: posts)
  case Nil
  then show ?case by simp
next
  case (Cons e entries)
  from Cons.prems(1) obtain r ps where r: "readPost h cfg e = Inr r"
    and ps: "collectPosts h cfg entries = Inr ps"
    and posts: "posts = (case r of None \<Rightarrow> ps | Some q \<Rightarrow> q # ps)"
    by (auto simp: bindE_Inr_iff)
  show ?case
  proof (cases "p \<in> set ps")
    case True
    with Cons.IH [OF ps] show ?thesis by auto
  next
    case False
    with Cons.prems(2) posts have "r = Some p"
      by (cases r) auto
    with r show ?thesis by simp
  qed
qed












subsection \<open>Layout resolver\<close>

lemma getLayout_no_global:
  assumes "globalCtx e = None" "layouts st = []"
  shows "getLayout e name st =
           (case layoutFiles e (normalName name) of
              None \<Rightarrow> (Inl ENOENT, st)
            | Some source \<Rightarrow> (Inl ReferenceError, st\<lparr>compiled := compiled st @ [normalName name]\<rparr>))"
  using assms by (simp add: getLayout_def normalName_def Let_def split: option.splits)

text \<open>
  Claim C3 (the code departs from it). In a program with no global variable \<^verbatim>\<open>ctx\<close>, and
  with nothing cached yet, a call of \<^verbatim>\<open>getLayout\<close> for a layout whose file exists reads and
  compiles the file and then throws a \<open>ReferenceError\<close>, before line 145 fills the cache. A
  second call with the same name reads and compiles the file again and throws again: no
  render function is returned and nothing is ever cached.
\<close>

theorem getLayout_unbound_ctx:
  assumes "globalCtx e = None" and "layouts st = []" and "layoutFiles e (normalName name) = Some source"
  shows "getLayout e name st =
           (Inl ReferenceError, st\<lparr>compiled := compiled st @ [normalName name]\<rparr>) \<and>
         getLayout e name (snd (getLayout e name st)) =
           (Inl ReferenceError, st\<lparr>compiled := compiled st @ [normalName name, normalName name]\<rparr>)"
  using assms by (simp add: getLayout_no_global)

subsection \<open>Site emitter\<close>


lemma walkDir_prune:
  "walkDir e h cfg dir entries st = walkDir e h cfg dir (prune entries) st"
proof (induction entries arbitrary: dir st rule: prune.induct)
  case 1
  show ?case by simp
next
  case (2 fname content rest)
  then show ?case
    by (simp split: prod.splits sum.splits)
next
  case (3 fname sub rest)
  then show ?case
    by (simp split: prod.splits sum.splits)
qed

lemma ensureDirectories_frame:
  "layouts (ensureDirectories path st) = layouts st \<and>
   compiled (ensureDirectories path st) = compiled st \<and>
   written (ensureDirectories path st) = written st"
proof -
  have "layouts (fold (\<lambda>cur s. if cur \<in> set (dirs s) then s else s\<lparr>dirs := dirs s @ [cur]\<rparr>) ps st) = layouts st \<and>
        compiled (fold (\<lambda>cur s. if cur \<in> set (dirs s) then s else s\<lparr>dirs := dirs s @ [cur]\<rparr>) ps st) = compiled st \<and>
        written (fold (\<lambda>cur s. if cur \<in> set (dirs s) then s else s\<lparr>dirs := dirs s @ [cur]\<rparr>) ps st) = written st" for ps
    by (induction ps arbitrary: st) auto
  then show ?thesis by (simp add: ensureDirectories_def)
qed

lemma ensureDirectories_dirs:
  "set (dirs (ensureDirectories path st)) = set (dirs st) \<union> set (dirPrefixes path)"
proof -
  have "set (dirs (fold (\<lambda>cur s. if cur \<in> set (dirs s) then s else s\<lparr>dirs := dirs s @ [cur]\<rparr>) ps st)) =
        set (dirs st) \<union> set ps" for ps
    by (induction ps arbitrary: st) auto
  then show ?thesis by (simp add: ensureDirectories_def)
qed

lemma dirPrefixes_prefix:
  "d \<in> set (dirPrefixes path) \<Longrightarrow> prefix d path"
  by (auto simp: dirPrefixes_def take_is_prefix)

lemma getLayout_frame:
  assumes "getLayout e name st = (r, st')"
  shows "written st' = written st \<and> dirs st' = dirs st"
  using assms by (auto simp: getLayout_def Let_def split: option.splits)


lemma walkFile_copy:
  assumes "readContents (yamlLoad h) content = Inr c" "\<not> truthy (frontMatter c)"
  shows "walkFile e h cfg file fname content st =
           (Inr (), (ensureDirectories (outPath file) st)
                      \<lparr>written := written st @ [(outPath file, content)]\<rparr>)"
  using assms by (simp add: walkFile_def Let_def ensureDirectories_frame)

lemma walkFile_layout:
  assumes "readContents (yamlLoad h) content = Inr c" "truthy (frontMatter c)"
    and "layoutName (getProp (frontMatter c) ''layout'') ''default.html'' = Inr name"
    and "getLayout e name (ensureDirectories (outPath file) st) = (Inr l, st2)"
  shows "walkFile e h cfg file fname content st =
           (case bindE (prepareDoc h file fname c) (render l) of
              Inl err \<Rightarrow> (Inl err, st2)
            | Inr out \<Rightarrow>
                (Inr (), st2\<lparr>written := written st2 @
                   [(replaceMarkdownExt (outPath file) (layoutExt (filename l)), out)]\<rparr>))"
  using assms by (simp add: walkFile_def Let_def)


lemma walkFile_effect:
  assumes "walkFile e h cfg file fname content st = (r, st')"
  shows "set (dirs st') = set (dirs st) \<union> set (dirPrefixes (outPath file)) \<and>
         (written st' = written st \<or>
          (\<exists>path out. written st' = written st @ [(path, out)] \<and>
             (path = outPath file \<or>
              (\<exists>name. path = replaceMarkdownExt (outPath file) (layoutExt name)))))"
proof -
  let ?st1 = "ensureDirectories (outPath file) st"
  have d1: "set (dirs ?st1) = set (dirs st) \<union> set (dirPrefixes (outPath file))"
    by (rule ensureDirectories_dirs)
  have w1: "written ?st1 = written st"
    by (simp add: ensureDirectories_frame)
  show ?thesis
  proof (cases "readContents (yamlLoad h) content")
    case (Inl err)
    with assms have "st' = ?st1"
      by (simp add: walkFile_def Let_def)
    with d1 w1 show ?thesis by simp
  next
    case (Inr c)
    show ?thesis
    proof (cases "truthy (frontMatter c)")
      case False
      with assms Inr have "st' = ?st1\<lparr>written := written st @ [(outPath file, content)]\<rparr>"
        by (simp add: walkFile_copy)
      with d1 show ?thesis by simp
    next
      case True
      show ?thesis
      proof (cases "layoutName (getProp (frontMatter c) ''layout'') ''default.html''")
        case (Inl err)
        with assms Inr True have "st' = ?st1"
          by (simp add: walkFile_def Let_def)
        with d1 w1 show ?thesis by simp
      next
        case name: (Inr name)
        obtain r2 st2 where g: "getLayout e name ?st1 = (r2, st2)"
          by (cases "getLayout e name ?st1")
        from getLayout_frame [OF g] have f2: "written st2 = written st" "dirs st2 = dirs ?st1"
          using w1 by simp_all
        show ?thesis
        proof (cases r2)
          case (Inl err)
          with assms Inr True name g have "st' = st2"
            by (simp add: walkFile_def Let_def)
          with f2 d1 show ?thesis by simp
        next
          case l: (Inr l)
          show ?thesis
          proof (cases "bindE (prepareDoc h file fname c) (render l)")
            case (Inl err)
            with assms walkFile_layout [OF Inr True name g [unfolded l], of cfg fname]
            have "st' = st2" by simp
            with f2 d1 show ?thesis by simp
          next
            case out: (Inr out)
            with assms walkFile_layout [OF Inr True name g [unfolded l], of cfg fname]
            have "st' = st2\<lparr>written := written st2 @
                [(replaceMarkdownExt (outPath file) (layoutExt (filename l)), out)]\<rparr>"
              by simp
            then have w: "written st' = written st @
                [(replaceMarkdownExt (outPath file) (layoutExt (filename l)), out)]"
              and d: "dirs st' = dirs st2"
              using f2 by simp_all
            from w have "\<exists>path out. written st' = written st @ [(path, out)] \<and>
                (\<exists>name. path = replaceMarkdownExt (outPath file) (layoutExt name))"
              by (intro exI conjI) (assumption, rule refl)
            then show ?thesis
              using d f2 d1 by simp blast
          qed
        qed
      qed
    qed
  qed
qed

lemma onlyFrom_refl: "onlyFrom P st st"
  by (simp add: onlyFrom_def)

lemma onlyFrom_trans:
  assumes "onlyFrom P st st1" "onlyFrom P st1 st2"
  shows "onlyFrom P st st2"
proof -
  from assms(1) obtain n1 where n1: "written st1 = written st @ n1"
    "\<forall>(path, out) \<in> set n1. \<exists>f \<in> P. mirrored f path"
    by (auto simp: onlyFrom_def)
  from assms(2) obtain n2 where n2: "written st2 = written st1 @ n2"
    "\<forall>(path, out) \<in> set n2. \<exists>f \<in> P. mirrored f path"
    by (auto simp: onlyFrom_def)
  have "written st2 = written st @ (n1 @ n2)"
    using n1(1) n2(1) by simp
  moreover have "\<forall>(path, out) \<in> set (n1 @ n2). \<exists>f \<in> P. mirrored f path"
    using n1(2) n2(2) by auto
  ultimately have w: "\<exists>new. written st2 = written st @ new \<and>
      (\<forall>(path, out) \<in> set new. \<exists>f \<in> P. mirrored f path)"
    by blast
  have "\<forall>d \<in> set (dirs st2). d \<in> set (dirs st) \<or> (\<exists>f \<in> P. prefix d (outPath f))"
    using assms by (auto simp: onlyFrom_def)
  with w show ?thesis
    by (simp add: onlyFrom_def)
qed

lemma onlyFrom_mono:
  assumes "onlyFrom P st st'" "P \<subseteq> Q"
  shows "onlyFrom Q st st'"
proof -
  from assms(1) obtain new where n: "written st' = written st @ new"
    "\<forall>(path, out) \<in> set new. \<exists>f \<in> P. mirrored f path"
    by (auto simp: onlyFrom_def)
  from n(2) assms(2) have "\<forall>(path, out) \<in> set new. \<exists>f \<in> Q. mirrored f path"
    by fastforce
  with n(1) have w: "\<exists>new. written st' = written st @ new \<and>
      (\<forall>(path, out) \<in> set new. \<exists>f \<in> Q. mirrored f path)"
    by blast
  have "\<forall>d \<in> set (dirs st'). d \<in> set (dirs st) \<or> (\<exists>f \<in> Q. prefix d (outPath f))"
    using assms by (fastforce simp: onlyFrom_def)
  with w show ?thesis
    by (simp add: onlyFrom_def)
qed

lemma walkFile_onlyFrom:
  assumes "walkFile e h cfg file fname content st = (r, st')"
  shows "onlyFrom {file} st st'"
proof -
  from walkFile_effect [OF assms]
  have d: "set (dirs st') = set (dirs st) \<union> set (dirPrefixes (outPath file))"
    and w: "written st' = written st \<or>
          (\<exists>path out. written st' = written st @ [(path, out)] \<and>
             (path = outPath file \<or>
              (\<exists>name. path = replaceMarkdownExt (outPath file) (layoutExt name))))"
    by simp_all
  from w have "\<exists>new. written st' = written st @ new \<and>
      (\<forall>(path, out) \<in> set new. \<exists>f \<in> {file}. mirrored f path)"
  proof
    assume "written st' = written st"
    then have "written st' = written st @ [] \<and>
      (\<forall>(path, out) \<in> set []. \<exists>f \<in> {file}. mirrored f path)"
      by simp
    then show ?thesis by (rule exI)
  next
    assume "\<exists>path out. written st' = written st @ [(path, out)] \<and>
             (path = outPath file \<or>
              (\<exists>name. path = replaceMarkdownExt (outPath file) (layoutExt name)))"
    then obtain path out where "written st' = written st @ [(path, out)]" "mirrored file path"
      by (auto simp: mirrored_def)
    then have "written st' = written st @ [(path, out)] \<and>
      (\<forall>(path, out) \<in> set [(path, out)]. \<exists>f \<in> {file}. mirrored f path)"
      by simp
    then show ?thesis by (rule exI)
  qed
  moreover have "\<forall>d \<in> set (dirs st'). d \<in> set (dirs st) \<or> (\<exists>f \<in> {file}. prefix d (outPath f))"
    using d dirPrefixes_prefix by auto
  ultimately show ?thesis
    by (simp add: onlyFrom_def)
qed

lemma walkDir_onlyFrom:
  "walkDir e h cfg dir entries st = (r, st') \<Longrightarrow>
     onlyFrom ((\<lambda>p. dir @ p) ` set (visiblePaths entries)) st st'"
proof (induction entries arbitrary: dir st r st' rule: visiblePaths.induct)
  case 1
  then show ?case by (simp add: onlyFrom_refl)
next
  case (2 fname content rest)
  let ?P = "(\<lambda>p. dir @ p) ` set (visiblePaths ((fname, File content) # rest))"
  have sub: "(\<lambda>p. dir @ p) ` set (visiblePaths rest) \<subseteq> ?P"
    by auto
  show ?case
  proof (cases "reserved fname \<or> isExcluded cfg (dir @ fname)")
    case True
    then have "walkDir e h cfg dir ((fname, File content) # rest) st = walkDir e h cfg dir rest st"
      by auto
    with 2(2) have "walkDir e h cfg dir rest st = (r, st')"
      by simp
    then have "onlyFrom ((\<lambda>p. dir @ p) ` set (visiblePaths rest)) st st'"
      by (rule 2(1))
    then show ?thesis using sub by (rule onlyFrom_mono)
  next
    case False
    obtain r1 st1 where f: "walkFile e h cfg (dir @ fname) fname content st = (r1, st1)"
      by (cases "walkFile e h cfg (dir @ fname) fname content st")
    have "{dir @ fname} \<subseteq> ?P" using False by simp
    with walkFile_onlyFrom [OF f] have o1: "onlyFrom ?P st st1"
      by (rule onlyFrom_mono)
    show ?thesis
    proof (cases r1)
      case (Inl err)
      with False f 2(2) have "st' = st1" by simp
      with o1 show ?thesis by simp
    next
      case (Inr u)
      with False f 2(2) have "walkDir e h cfg dir rest st1 = (r, st')" by simp
      then have "onlyFrom ((\<lambda>p. dir @ p) ` set (visiblePaths rest)) st1 st'"
        by (rule 2(1))
      then have "onlyFrom ?P st1 st'" using sub by (rule onlyFrom_mono)
      with o1 show ?thesis by (rule onlyFrom_trans)
    qed
  qed
next
  case (3 fname sub rest)
  let ?P = "(\<lambda>p. dir @ p) ` set (visiblePaths ((fname, Dir sub) # rest))"
  have subr: "(\<lambda>p. dir @ p) ` set (visiblePaths rest) \<subseteq> ?P"
    by auto
  show ?case
  proof (cases "reserved fname \<or> isExcluded cfg (dir @ fname)")
    case True
    then have "walkDir e h cfg dir ((fname, Dir sub) # rest) st = walkDir e h cfg dir rest st"
      by auto
    with 3(3) have "walkDir e h cfg dir rest st = (r, st')"
      by simp
    then have "onlyFrom ((\<lambda>p. dir @ p) ` set (visiblePaths rest)) st st'"
      by (rule 3(2))
    then show ?thesis using subr by (rule onlyFrom_mono)
  next
    case False
    then have nr: "\<not> reserved fname" by simp
    obtain r1 st1 where f: "walkDir e h cfg (dir @ fname @ ''/'') sub st = (r1, st1)"
      by (cases "walkDir e h cfg (dir @ fname @ ''/'') sub st")
    then have "onlyFrom ((\<lambda>p. (dir @ fname @ ''/'') @ p) ` set (visiblePaths sub)) st st1"
      by (rule 3(1) [OF nr])
    moreover have "(\<lambda>p. (dir @ fname @ ''/'') @ p) ` set (visiblePaths sub) \<subseteq> ?P"
      using False by auto
    ultimately have o1: "onlyFrom ?P st st1"
      by (rule onlyFrom_mono)
    show ?thesis
    proof (cases r1)
      case (Inl err)
      with False f 3(3) have "st' = st1" by simp
      with o1 show ?thesis by simp
    next
      case (Inr u)
      with False f 3(3) have "walkDir e h cfg dir rest st1 = (r, st')" by simp
      then have "onlyFrom ((\<lambda>p. dir @ p) ` set (visiblePaths rest)) st1 st'"
        by (rule 3(2))
      then have "onlyFrom ?P st1 st'" using subr by (rule onlyFrom_mono)
      with o1 show ?thesis by (rule onlyFrom_trans)
    qed
  qed
qed

lemma visiblePaths_components:
  "p \<in> set (visiblePaths entries) \<Longrightarrow>
     \<exists>names. names \<noteq> [] \<and> list_all (\<lambda>n. \<not> reserved n) names \<and> p = joinPath names"
proof (induction entries arbitrary: p rule: visiblePaths.induct)
  case 1
  then show ?case by simp
next
  case (2 fname content rest)
  show ?case
  proof (cases "p \<in> set (visiblePaths rest)")
    case True
    then show ?thesis by (rule 2(1))
  next
    case False
    with 2(2) have "p = fname" "\<not> reserved fname"
      by (auto split: if_splits)
    then have "[fname] \<noteq> [] \<and> list_all (\<lambda>n. \<not> reserved n) [fname] \<and> p = joinPath [fname]"
      by simp
    then show ?thesis by (rule exI)
  qed
next
  case (3 fname sub rest)
  show ?case
  proof (cases "p \<in> set (visiblePaths rest)")
    case True
    then show ?thesis by (rule 3(2))
  next
    case False
    with 3(3) obtain q where q: "q \<in> set (visiblePaths sub)" "p = fname @ ''/'' @ q" "\<not> reserved fname"
      by (auto split: if_splits)
    from 3(1) [OF q(3) q(1)] obtain names where
      n: "names \<noteq> []" "list_all (\<lambda>n. \<not> reserved n) names" "q = joinPath names"
      by blast
    from n(1) obtain m ms where "names = m # ms" by (cases names) auto
    with n q have "fname # names \<noteq> [] \<and> list_all (\<lambda>n. \<not> reserved n) (fname # names) \<and>
        p = joinPath (fname # names)"
      by simp
    then show ?thesis by (rule exI)
  qed
qed

theorem getLayout_unbound_ctx_witness:
  "globalCtx exampleEngine = None \<and> layouts initialBuild = [] \<and>
   layoutFiles exampleEngine (normalName ''post'') = Some ''<post/>'' \<and>
   getLayout exampleEngine ''post'' initialBuild =
     (Inl ReferenceError, initialBuild\<lparr>compiled := [''post.html'']\<rparr>) \<and>
   getLayout exampleEngine ''post'' (snd (getLayout exampleEngine ''post'' initialBuild)) =
     (Inl ReferenceError, initialBuild\<lparr>compiled := [''post.html'', ''post.html'']\<rparr>)"
proof -
  have h: "globalCtx exampleEngine = None" "layouts initialBuild = []"
    "layoutFiles exampleEngine (normalName ''post'') = Some ''<post/>''"
    by (simp_all add: exampleEngine_def initialBuild_def normalName_def)
  have n: "normalName ''post'' = ''post.html''" "compiled initialBuild = []"
    by (simp_all add: normalName_def initialBuild_def)
  note t = getLayout_unbound_ctx [OF h, unfolded n append_Nil]
  from h t show ?thesis by blast
qed















text \<open>
  Claim C10. At every level, the walk ignores the entries whose name begins with an
  underscore or a dot: it does what it does on the tree without them. Every file it writes
  and every directory it makes mirrors a source path whose components are all names that
  begin with neither.
\<close>

theorem walkDir_skips_reserved:
  "walkDir e h cfg dir entries st = walkDir e h cfg dir (prune entries) st \<and>
   onlyFrom ((\<lambda>p. dir @ p) ` set (visiblePaths entries)) st (snd (walkDir e h cfg dir entries st)) \<and>
   (\<forall>p \<in> set (visiblePaths entries).
      \<exists>names. names \<noteq> [] \<and> list_all (\<lambda>n. \<not> reserved n) names \<and> p = joinPath names)"
proof -
  have "onlyFrom ((\<lambda>p. dir @ p) ` set (visiblePaths entries)) st (snd (walkDir e h cfg dir entries st))"
    by (rule walkDir_onlyFrom [of e h cfg dir entries st "fst (walkDir e h cfg dir entries st)"]) simp
  then show ?thesis
    using walkDir_prune visiblePaths_components by blast
qed




lemma example_prune:
  "prune exampleTree =
     [(''css'', Dir [(''site.css'', File ''body {}'')]), (''about.md'', File exampleDoc)]"
  by (simp add: exampleTree_def reserved_def)

lemma example_walkDir:
  "map fst (written (snd (walkDir engineWithCtx exampleHost exampleConfig ''./''
      [(''css'', Dir [(''site.css'', File ''body {}'')]), (''about.md'', File exampleDoc)]
      initialBuild))) = [''_site/./css/site.css'', ''_site/./about.html'']"
  by code_simp

theorem walkDir_skips_reserved_witness:
  "prune exampleTree =
     [(''css'', Dir [(''site.css'', File ''body {}'')]), (''about.md'', File exampleDoc)] \<and>
   map fst (written (snd (walkDir engineWithCtx exampleHost exampleConfig ''./'' exampleTree
      initialBuild))) = [''_site/./css/site.css'', ''_site/./about.html'']"
proof -
  have "walkDir engineWithCtx exampleHost exampleConfig ''./'' exampleTree initialBuild =
        walkDir engineWithCtx exampleHost exampleConfig ''./'' (prune exampleTree) initialBuild"
    using walkDir_skips_reserved [of engineWithCtx exampleHost exampleConfig "''./''" exampleTree
        initialBuild]
    by (rule conjunct1)
  with example_prune example_walkDir show ?thesis
    by simp
qed

subsection \<open>Context merging\<close>

lemma jsonCopy_clean:
  "jsonCopy fmt v = Inr r \<Longrightarrow> (\<forall>w. r = Some w \<longrightarrow> jsonClean w)"
  "jsonElems fmt xs = Inr ys \<Longrightarrow> list_all jsonClean ys"
  "jsonFields fmt fs = Inr gs \<Longrightarrow> list_all (\<lambda>kv. jsonClean (snd kv)) gs"
proof (induction fmt v and fmt xs and fmt fs arbitrary: r and ys and gs
    rule: jsonCopy_jsonElems_jsonFields.induct)
  case (9 fmt xs)
  then show ?case by (auto split: sum.splits)
next
  case (10 fmt fs)
  then show ?case by (auto split: sum.splits option.splits jsval.splits)
next
  case (12 fmt x xs)
  then show ?case by (auto split: sum.splits option.splits)
next
  case (14 fmt k v fs)
  then show ?case by (auto split: sum.splits option.splits)
qed auto

lemma jsonFields_keys:
  "jsonFields fmt fs = Inr gs \<Longrightarrow> set (map fst gs) \<subseteq> set (map fst fs)"
proof (induction fs arbitrary: gs)
  case Nil
  then show ?case by simp
next
  case (Cons kv fs)
  obtain k v where kv: "kv = (k, v)" by (cases kv)
  from Cons.prems obtain r hs where r: "jsonCopy fmt v = Inr r"
    and hs: "jsonFields fmt fs = Inr hs"
    and gs: "gs = (case r of None \<Rightarrow> hs | Some y \<Rightarrow> (k, y) # hs)"
    by (auto simp: kv split: sum.splits)
  from Cons.IH [OF hs] gs show ?case
    by (cases r) (auto simp: kv)
qed

lemma jsonFields_map_of:
  assumes "jsonFields fmt fs = Inr gs" "distinct (map fst fs)"
  shows "(map_of fs k = None \<longrightarrow> map_of gs k = None) \<and>
         (\<forall>v. map_of fs k = Some v \<longrightarrow> jsonCopy fmt v = Inr (map_of gs k))"
  using assms
proof (induction fs arbitrary: gs)
  case Nil
  then show ?case by simp
next
  case (Cons kv fs)
  obtain k' v' where kv: "kv = (k', v')" by (cases kv)
  from Cons.prems(1) obtain r hs where r: "jsonCopy fmt v' = Inr r"
    and hs: "jsonFields fmt fs = Inr hs"
    and gs: "gs = (case r of None \<Rightarrow> hs | Some y \<Rightarrow> (k', y) # hs)"
    by (auto simp: kv split: sum.splits)
  from Cons.prems(2) have d: "distinct (map fst fs)" and nk: "k' \<notin> fst ` set fs"
    by (simp_all add: kv)
  note IH = Cons.IH [OF hs d]
  show ?case
  proof (cases "k = k'")
    case True
    from nk jsonFields_keys [OF hs] have "k' \<notin> fst ` set hs" by auto
    then have "map_of hs k' = None"
      by (simp add: map_of_eq_None_iff)
    with True r gs show ?thesis
      by (cases r) (simp_all add: kv)
  next
    case False
    with IH gs show ?thesis
      by (cases r) (simp_all add: kv)
  qed
qed

lemma overlay_object:
  "overlay (JObj fs) newCtx keys = Inr fc \<Longrightarrow>
     \<exists>fs'. fc = JObj fs' \<and>
       (\<forall>k. map_of fs' k = (if k \<in> set keys then Some (getProp newCtx k) else map_of fs k))"
proof (induction keys arbitrary: fs)
  case Nil
  then show ?case by auto
next
  case (Cons key keys)
  from Cons.prems have np: "key \<noteq> ''__proto__''"
    and step: "overlay (JObj (updateProp key (getProp newCtx key) fs)) newCtx keys = Inr fc"
    by (auto simp: bindE_def split: if_splits)
  from Cons.IH [OF step] obtain fs' where fs': "fc = JObj fs'"
    "\<And>k. map_of fs' k = (if k \<in> set keys then Some (getProp newCtx k)
        else map_of (updateProp key (getProp newCtx key) fs) k)"
    by blast
  have "\<forall>k. map_of fs' k = (if k \<in> set (key # keys) then Some (getProp newCtx k) else map_of fs k)"
    by (simp add: fs'(2) map_of_updateProp)
  with fs'(1) show ?case by blast
qed

text \<open>
  Claim C9. The context the compiled template receives is the JSON copy of the base
  context with the keys of the call-specific context laid over it. For a key the
  call-specific context does not have: a field of the base that is a function is absent, a
  field that is a \<^verbatim>\<open>Date\<close> is the string of that date, and whatever the field holds, its
  copy holds no \<^verbatim>\<open>Date\<close> and no function at any depth. A key of the call-specific context
  holds that context's own value.
\<close>

theorem templateInput_json_copy:
  assumes "templateInput fmt (JObj base) newCtx = Inr fc" and "distinct (map fst base)"
  shows "partialTemplate fmt tmpl (JObj base) newCtx = tmpl fc \<and>
         (\<exists>fs keys. fc = JObj fs \<and> objectKeys newCtx = Inr keys \<and>
            (\<forall>k \<in> set keys. map_of fs k = Some (getProp newCtx k)) \<and>
            (\<forall>k. k \<notin> set keys \<longrightarrow>
               (map_of base k = None \<longrightarrow> map_of fs k = None) \<and>
               (\<forall>v. map_of base k = Some v \<longrightarrow> jsonCopy fmt v = Inr (map_of fs k)) \<and>
               (\<forall>f. map_of base k = Some (JFun f) \<longrightarrow> map_of fs k = None) \<and>
               (\<forall>t. map_of base k = Some (JDate t) \<longrightarrow> map_of fs k = Some (JStr (fmt t))) \<and>
               (\<forall>w. map_of fs k = Some w \<longrightarrow> jsonClean w)))"
proof -
  from assms(1) obtain gs keys where
    gs: "jsonFields fmt base = Inr gs"
    and keys: "objectKeys newCtx = Inr keys"
    and ov: "overlay (JObj gs) newCtx keys = Inr fc"
    by (auto simp: templateInput_def bindE_Inr_iff split: option.splits sum.splits jsval.splits)
  from overlay_object [OF ov] obtain fs where fs: "fc = JObj fs"
    and look: "\<And>k. map_of fs k = (if k \<in> set keys then Some (getProp newCtx k) else map_of gs k)"
    by blast
  have clean: "jsonClean w" if "map_of gs k = Some w" for k w
  proof -
    from that have "(k, w) \<in> set gs" by (rule map_of_SomeD)
    with jsonCopy_clean(3) [OF gs] show ?thesis
      by (auto simp: list_all_iff)
  qed
  have copy: "(map_of base k = None \<longrightarrow> map_of gs k = None) \<and>
      (\<forall>v. map_of base k = Some v \<longrightarrow> jsonCopy fmt v = Inr (map_of gs k))" for k
    using gs assms(2) by (rule jsonFields_map_of)
  have fn: "map_of gs k = None" if "map_of base k = Some (JFun f)" for k f
    using copy [of k] that by simp
  have date: "map_of gs k = Some (JStr (fmt t))" if "map_of base k = Some (JDate t)" for k t
    using copy [of k] that by simp
  have rest: "\<forall>k. k \<notin> set keys \<longrightarrow>
               (map_of base k = None \<longrightarrow> map_of fs k = None) \<and>
               (\<forall>v. map_of base k = Some v \<longrightarrow> jsonCopy fmt v = Inr (map_of fs k)) \<and>
               (\<forall>f. map_of base k = Some (JFun f) \<longrightarrow> map_of fs k = None) \<and>
               (\<forall>t. map_of base k = Some (JDate t) \<longrightarrow> map_of fs k = Some (JStr (fmt t))) \<and>
               (\<forall>w. map_of fs k = Some w \<longrightarrow> jsonClean w)"
    using copy fn date clean by (simp add: look)
  have over: "\<forall>k \<in> set keys. map_of fs k = Some (getProp newCtx k)"
    by (simp add: look)
  have "partialTemplate fmt tmpl (JObj base) newCtx = tmpl fc"
    using assms(1) by (simp add: partialTemplate_def bindE_def)
  with fs keys over rest show ?thesis by blast
qed

lemma example_templateInput:
  "templateInput (\<lambda>t. if t = 5 then ''1970-01-01T00:00:00.005Z'' else ''1970-01-01T00:00:00.007Z'')
     exampleCtx
     (JObj [(''title'', JStr ''x''), (''date'', JDate 9)]) =
   Inr (JObj [(''site'', JObj [(''posts'', JArr [JObj [(''name'', JStr ''hello''),
                                  (''date'', JStr ''1970-01-01T00:00:00.005Z'')]])]),
              (''built'', JStr ''1970-01-01T00:00:00.007Z''),
              (''title'', JStr ''x''), (''date'', JDate 9)])"
  by (simp add: exampleCtx_def templateInput_def bindE_def)

theorem templateInput_json_copy_witness:
  "distinct (map fst [(''site'', JObj [(''posts'', JArr [JObj [(''name'', JStr ''hello''), (''date'', JDate 5)]])]),
                      (''dateFormat'', JFun 0), (''built'', JDate 7)]) \<and>
   templateInput (\<lambda>t. if t = 5 then ''1970-01-01T00:00:00.005Z'' else ''1970-01-01T00:00:00.007Z'')
     exampleCtx (JObj [(''title'', JStr ''x''), (''date'', JDate 9)]) =
   Inr (JObj [(''site'', JObj [(''posts'', JArr [JObj [(''name'', JStr ''hello''),
                                  (''date'', JStr ''1970-01-01T00:00:00.005Z'')]])]),
              (''built'', JStr ''1970-01-01T00:00:00.007Z''),
              (''title'', JStr ''x''), (''date'', JDate 9)]) \<and>
   partialTemplate (\<lambda>t. if t = 5 then ''1970-01-01T00:00:00.005Z'' else ''1970-01-01T00:00:00.007Z'')
     (\<lambda>c. Inr (case getProp c ''dateFormat'' of JUndefined \<Rightarrow> ''no dateFormat'' | _ \<Rightarrow> ''dateFormat''))
     exampleCtx (JObj [(''title'', JStr ''x''), (''date'', JDate 9)]) = Inr ''no dateFormat''"
proof -
  have d: "distinct (map fst [(''site'', JObj [(''posts'', JArr [JObj [(''name'', JStr ''hello''), (''date'', JDate 5)]])]),
                      (''dateFormat'', JFun 0), (''built'', JDate 7)])"
    by simp
  note t = templateInput_json_copy [OF example_templateInput [unfolded exampleCtx_def] d,
      of "\<lambda>c. Inr (case getProp c ''dateFormat'' of JUndefined \<Rightarrow> ''no dateFormat'' | _ \<Rightarrow> ''dateFormat'')",
      THEN conjunct1, folded exampleCtx_def]
  from d example_templateInput t show ?thesis
    by simp
qed

subsection \<open>The merged context and the objects that existed before the merge\<close>
















































end
